theory Spec2Isabelle
  imports Main "HOL-Library.Word"
begin

section \<open>The queue API of workerd (src/workerd/api/queue.c++)\<close>

text \<open>
  A C++ \<^verbatim>\<open>int\<close> is a 32-bit two's complement value; \<^verbatim>\<open>kj::byte\<close> is an unsigned
  8-bit value. A \<^verbatim>\<open>kj::String\<close> is a sequence of \<^verbatim>\<open>char\<close>, an Isabelle \<open>string\<close>.
\<close>

type_synonym cint = "32 word"
type_synonym byte = "8 word"

subsection \<open>Errors and outcomes\<close>

text \<open>
  \<^verbatim>\<open>JSG_REQUIRE(cond, TypeError, msg)\<close> and \<^verbatim>\<open>JSG_FAIL_REQUIRE(Error, msg)\<close> throw a JavaScript
  \<open>TypeError\<close> or \<open>Error\<close> with the message. A host primitive (JSON or structured
  serialization) may throw an exception of its own, and a kj container throws a
  \<^verbatim>\<open>kj::Exception\<close>. Every throw of the source is an \<open>Inl\<close> of the model.
\<close>

datatype error =
  TypeError string
  | Error string
  | JsException string
  | KjException string

text \<open>
  Modelled from the spec: \<^verbatim>\<open>EventOutcome\<close> is declared in outcome.capnp, which is not among
  the sources. The spec names the outcomes of a delivery: OK, EXCEPTION and EXCEEDED_CPU.
\<close>

datatype EventOutcome = OK | EXCEPTION | EXCEEDED_CPU

subsection \<open>The ack/retry ledger: \<^verbatim>\<open>QueueEventResult\<close>\<close>

text \<open>
  Modelled from the spec: \<^verbatim>\<open>QueueEventResult\<close> is declared in queue.h, which is not among
  the sources. The spec's ledger has the fields that queue.c++ reads and writes: \<^verbatim>\<open>ackAll\<close>,
  \<^verbatim>\<open>retryBatch.retry\<close>, \<^verbatim>\<open>retryBatch.delaySeconds\<close>, the set \<^verbatim>\<open>explicitAcks\<close> of message
  ids and the mapping \<^verbatim>\<open>retries\<close> from message id to an entry with an optional
  \<^verbatim>\<open>delaySeconds\<close>. A fresh ledger has both flags false, no delay and both collections
  empty.
\<close>

record RetryOptions =
  delaySeconds :: "cint option"

record RetryBatch =
  retry :: bool
  batchDelaySeconds :: "cint option"

record QueueEventResult =
  ackAll :: bool
  retryBatch :: RetryBatch
  explicitAcks :: "string set"
  retries :: "string \<rightharpoonup> RetryOptions"

text \<open>
  Modelled from the spec: \<^verbatim>\<open>QueueRetryOptions\<close>, the options object of \<^verbatim>\<open>retry()\<close> and
  \<^verbatim>\<open>retryAll()\<close>, is declared in queue.h; it carries the optional \<^verbatim>\<open>delaySeconds\<close> that
  queue.c++ reads.
\<close>

record QueueRetryOptions =
  optDelaySeconds :: "cint option"

text \<open>
  The operations run inside an \<^verbatim>\<open>IoContext\<close>, whose \<^verbatim>\<open>logWarning\<close> appends a message to
  the warnings the worker has logged. The state the four operations act on is the ledger
  together with that log.
\<close>

record IoState =
  result :: QueueEventResult
  warnings :: "string list"

definition logWarning :: "string \<Rightarrow> IoState \<Rightarrow> IoState" where
  "logWarning msg s = s\<lparr>warnings := warnings s @ [msg]\<rparr>"

definition defaultResult :: QueueEventResult where
  "defaultResult =
     \<lparr>ackAll = False, retryBatch = \<lparr>retry = False, batchDelaySeconds = None\<rparr>,
      explicitAcks = {}, retries = Map.empty\<rparr>"

definition freshState :: IoState where
  "freshState = \<lparr>result = defaultResult, warnings = []\<rparr>"

text \<open>
  \<^verbatim>\<open>kj::HashMap::upsert(key, value)\<close> of the kj library (not part of this repository)
  inserts the entry, and replaces the value of an entry that already has the key.
  \<^verbatim>\<open>retries.upsert(id, {})\<close> therefore leaves a default entry under \<open>id\<close>, whose delay the
  caller then sets when the options carry one.
\<close>

definition upsert :: "string \<Rightarrow> RetryOptions \<Rightarrow> (string \<rightharpoonup> RetryOptions) \<Rightarrow> (string \<rightharpoonup> RetryOptions)" where
  "upsert k v m = m(k \<mapsto> v)"

definition optionsDelay :: "QueueRetryOptions option \<Rightarrow> cint option" where
  "optionsDelay options =
     (case options of None \<Rightarrow> None | Some opts \<Rightarrow> optDelaySeconds opts)"

definition retryAfterAckAllMsg :: "string \<Rightarrow> string" where
  "retryAfterAckAllMsg msgId =
     ''Received a call to retry() on message '' @ msgId @
     '' after ackAll() was already called. '' @
     ''Calling retry() on a message after calling ackAll() has no effect.''"

definition retryAfterAckMsg :: "string \<Rightarrow> string" where
  "retryAfterAckMsg msgId =
     ''Received a call to retry() on message '' @ msgId @
     '' after ack() was already called. '' @
     ''Calling retry() on a message after calling ack() has no effect.''"

definition ackAfterRetryAllMsg :: "string \<Rightarrow> string" where
  "ackAfterRetryAllMsg msgId =
     ''Received a call to ack() on message '' @ msgId @
     '' after retryAll() was already called. '' @
     ''Calling ack() on a message after calling retryAll() has no effect.''"

definition ackAfterRetryMsg :: "string \<Rightarrow> string" where
  "ackAfterRetryMsg msgId =
     ''Received a call to ack() on message '' @ msgId @
     '' after retry() was already called. '' @
     ''Calling ack() on a message after calling retry() has no effect.''"

definition retryAllAfterAckAllMsg :: string where
  "retryAllAfterAckAllMsg =
     ''Received a call to retryAll() after ackAll() was already called. '' @
     ''Calling retryAll() after calling ackAll() has no effect.''"

definition ackAllAfterRetryAllMsg :: string where
  "ackAllAfterRetryAllMsg =
     ''Received a call to ackAll() after retryAll() was already called. '' @
     ''Calling ackAll() after calling retryAll() has no effect.''"

text \<open>\<^verbatim>\<open>QueueMessage::retry\<close>, for the message with the given id.\<close>

definition QueueMessage_retry :: "string \<Rightarrow> QueueRetryOptions option \<Rightarrow> IoState \<Rightarrow> IoState" where
  "QueueMessage_retry msgId options s =
     (if ackAll (result s) then logWarning (retryAfterAckAllMsg msgId) s
      else if msgId \<in> explicitAcks (result s) then logWarning (retryAfterAckMsg msgId) s
      else
        let entry = \<lparr>delaySeconds = None\<rparr>;
            entry' = (case optionsDelay options of
                        None \<Rightarrow> entry
                      | Some secs \<Rightarrow> entry\<lparr>delaySeconds := Some secs\<rparr>)
        in s\<lparr>result := (result s)\<lparr>retries := upsert msgId entry' (retries (result s))\<rparr>\<rparr>)"

text \<open>\<^verbatim>\<open>QueueMessage::ack\<close>; \<^verbatim>\<open>findOrCreate\<close> on the hash set inserts the id unless present.\<close>

definition QueueMessage_ack :: "string \<Rightarrow> IoState \<Rightarrow> IoState" where
  "QueueMessage_ack msgId s =
     (if ackAll (result s) then s
      else if retry (retryBatch (result s)) then logWarning (ackAfterRetryAllMsg msgId) s
      else if retries (result s) msgId \<noteq> None then logWarning (ackAfterRetryMsg msgId) s
      else s\<lparr>result := (result s)\<lparr>explicitAcks := insert msgId (explicitAcks (result s))\<rparr>\<rparr>)"

text \<open>\<^verbatim>\<open>QueueEvent::retryAll\<close> and \<^verbatim>\<open>QueueEvent::ackAll\<close>.\<close>

definition QueueEvent_retryAll :: "QueueRetryOptions option \<Rightarrow> IoState \<Rightarrow> IoState" where
  "QueueEvent_retryAll options s =
     (if ackAll (result s) then logWarning retryAllAfterAckAllMsg s
      else
        let rb = (retryBatch (result s))\<lparr>retry := True\<rparr>;
            rb' = (case optionsDelay options of
                     None \<Rightarrow> rb
                   | Some secs \<Rightarrow> rb\<lparr>batchDelaySeconds := Some secs\<rparr>)
        in s\<lparr>result := (result s)\<lparr>retryBatch := rb'\<rparr>\<rparr>)"

definition QueueEvent_ackAll :: "IoState \<Rightarrow> IoState" where
  "QueueEvent_ackAll s =
     (if retry (retryBatch (result s)) then logWarning ackAllAfterRetryAllMsg s
      else s\<lparr>result := (result s)\<lparr>ackAll := True\<rparr>\<rparr>)"

text \<open>
  What a handler does to the ledger is a sequence of calls of the four operations, applied
  in the order the handler makes them.
\<close>

datatype LedgerCall =
  Ack string
  | Retry string "QueueRetryOptions option"
  | AckAll
  | RetryAll "QueueRetryOptions option"

fun applyCall :: "IoState \<Rightarrow> LedgerCall \<Rightarrow> IoState" where
  "applyCall s (Ack msgId) = QueueMessage_ack msgId s"
| "applyCall s (Retry msgId options) = QueueMessage_retry msgId options s"
| "applyCall s AckAll = QueueEvent_ackAll s"
| "applyCall s (RetryAll options) = QueueEvent_retryAll options s"

definition applyCalls :: "IoState \<Rightarrow> LedgerCall list \<Rightarrow> IoState" where
  "applyCalls s calls = foldl applyCall s calls"

definition ledgerInv :: "QueueEventResult \<Rightarrow> bool" where
  "ledgerInv r \<longleftrightarrow>
     explicitAcks r \<inter> dom (retries r) = {} \<and> \<not> (ackAll r \<and> retry (retryBatch r))"

subsection \<open>The ledger across the RPC boundary: \<^verbatim>\<open>QueueCustomEventImpl::sendRpc\<close>\<close>









subsection \<open>Strings, bytes and decimal numbers\<close>

text \<open>
  \<^verbatim>\<open>kj::String::asBytes()\<close> and \<^verbatim>\<open>asChars()\<close> reinterpret the same memory as bytes or as
  characters.
\<close>

definition asBytes :: "string \<Rightarrow> byte list" where
  "asBytes s = map of_char s"

definition asChars :: "byte list \<Rightarrow> string" where
  "asChars bs = map (\<lambda>b. char_of (unat b)) bs"

text \<open>
  \<^verbatim>\<open>kj::str(n)\<close> of a \<^verbatim>\<open>size_t\<close> or an \<^verbatim>\<open>int\<close> prints the number in decimal, with a minus
  sign for a negative \<^verbatim>\<open>int\<close>.
\<close>

definition digitChar :: "nat \<Rightarrow> char" where
  "digitChar d = ''0123456789'' ! d"

fun str_nat :: "nat \<Rightarrow> string" where
  "str_nat n = (if n < 10 then [digitChar n] else str_nat (n div 10) @ [digitChar (n mod 10)])"

declare str_nat.simps [simp del]

definition str_int :: "int \<Rightarrow> string" where
  "str_int i = (if i < 0 then CHR ''-'' # str_nat (nat (- i)) else str_nat (nat i))"

definition str_cint :: "cint \<Rightarrow> string" where
  "str_cint secs = str_int (sint secs)"

text \<open>
  Modelled from the spec: \<^verbatim>\<open>toLower\<close> is defined in workerd/util/strings.h, which is not
  among the sources. The spec matches content types without regard to case: \<open>toLower\<close>
  lower-cases the ASCII letters of a string.
\<close>

definition toLowerChar :: "char \<Rightarrow> char" where
  "toLowerChar c =
     (if 65 \<le> (of_char c :: nat) \<and> (of_char c :: nat) \<le> 90 then char_of (of_char c + 32 :: nat) else c)"

definition toLower :: "string \<Rightarrow> string" where
  "toLower s = map toLowerChar s"

text \<open>
  \<^verbatim>\<open>kj::encodeBase64(bytes)\<close> (kj library, without line breaks): the standard alphabet, three
  bytes to four characters, the last group padded with \<open>=\<close>.
\<close>

definition base64Chars :: string where
  "base64Chars = ''ABCDEFGHIJKLMNOPQRSTUVWXYZabcdefghijklmnopqrstuvwxyz0123456789+/''"

definition base64Char :: "nat \<Rightarrow> char" where
  "base64Char n = base64Chars ! (n mod 64)"

fun encodeBase64 :: "byte list \<Rightarrow> string" where
  "encodeBase64 [] = []"
| "encodeBase64 [a] =
     [base64Char (unat a div 4), base64Char (unat a mod 4 * 16), CHR ''='', CHR ''='']"
| "encodeBase64 [a, b] =
     [base64Char (unat a div 4), base64Char (unat a mod 4 * 16 + unat b div 16),
      base64Char (unat b mod 16 * 4), CHR ''='']"
| "encodeBase64 (a # b # c # bs) =
     [base64Char (unat a div 4), base64Char (unat a mod 4 * 16 + unat b div 16),
      base64Char (unat b mod 16 * 4 + unat c div 64), base64Char (unat c mod 64)]
     @ encodeBase64 bs"

subsection \<open>The host: JavaScript values and their primitives\<close>

text \<open>
  The message body is a \<^verbatim>\<open>jsg::JsValue\<close>. Its tests and conversions, the JSON and structured
  serializers and the constructors of JavaScript values belong to jsg and V8, outside
  queue.c++; the model takes them as a parameter, over any type \<open>'v\<close> of JavaScript values.
  A primitive that can throw returns a sum. \<open>serializerWrite version omitHeader v\<close> stands
  for \<^verbatim>\<open>jsg::Serializer\<close> with these options, \<^verbatim>\<open>write\<close> and \<^verbatim>\<open>release().data\<close>;
  \<open>bufferSource\<close> for the bytes a \<^verbatim>\<open>jsg::BufferSource\<close> of the value covers.
\<close>

record 'v Host =
  isUndefined :: "'v \<Rightarrow> bool"
  isString :: "'v \<Rightarrow> bool"
  isArrayBufferView :: "'v \<Rightarrow> bool"
  typeOf :: "'v \<Rightarrow> string"
  toString :: "'v \<Rightarrow> string"
  toJson :: "'v \<Rightarrow> error + string"
  serializerWrite :: "nat \<Rightarrow> bool \<Rightarrow> 'v \<Rightarrow> error + byte list"
  bufferSource :: "'v \<Rightarrow> byte list"
  canDetach :: "'v \<Rightarrow> bool"
  str :: "string \<Rightarrow> 'v"
  bytes :: "byte list \<Rightarrow> 'v"
  fromJson :: "string \<Rightarrow> error + 'v"
  readValue :: "byte list \<Rightarrow> error + 'v"

text \<open>
  The compatibility flags that queue.c++ reads (\<^verbatim>\<open>FeatureFlags\<close> is declared outside
  queue.c++; the model takes the flags as a parameter).
\<close>

record FeatureFlags =
  getQueuesJsonMessages :: bool
  getQueueConsumerNoWaitForWaitUntil :: bool

subsection \<open>Content types\<close>

text \<open>
  Modelled from the spec: the constants \<^verbatim>\<open>IncomingQueueMessage::ContentType::TEXT\<close>, \<^verbatim>\<open>BYTES\<close>,
  \<^verbatim>\<open>JSON\<close> and \<^verbatim>\<open>V8\<close> are declared in queue.h, which is not among the sources. The spec gives
  their values on the wire: \<open>text\<close>, \<open>bytes\<close>, \<open>json\<close>, and \<open>v8\<close> for the structured format.
\<close>

definition ContentType_TEXT :: string where "ContentType_TEXT = ''text''"
definition ContentType_BYTES :: string where "ContentType_BYTES = ''bytes''"
definition ContentType_JSON :: string where "ContentType_JSON = ''json''"
definition ContentType_V8 :: string where "ContentType_V8 = ''v8''"

definition validateContentType :: "string \<Rightarrow> error + string" where
  "validateContentType contentType =
     (let lowerCase = toLower contentType in
      if lowerCase = ContentType_TEXT then Inr ContentType_TEXT
      else if lowerCase = ContentType_BYTES then Inr ContentType_BYTES
      else if lowerCase = ContentType_JSON then Inr ContentType_JSON
      else if lowerCase = ContentType_V8 then Inr ContentType_V8
      else Inl (TypeError (''Unsupported queue message content type: '' @ contentType)))"

subsection \<open>\<^verbatim>\<open>serialize\<close> and \<^verbatim>\<open>deserialize\<close>\<close>

text \<open>
  \<^verbatim>\<open>Serialized\<close> holds the owner of the serialized data and a pointer to the data. The model
  keeps which kind of owner holds the data, and the bytes the pointer covers.
\<close>

datatype Owner = OwnString | OwnArray | OwnBufferSource | OwnBackingStore

record Serialized =
  own :: "Owner option"
  data :: "byte list"

datatype SerializeArrayBufferBehavior = DEEP_COPY | SHALLOW_REFERENCE

definition serializeV8 :: "'v Host \<Rightarrow> 'v \<Rightarrow> error + Serialized" where
  "serializeV8 js body =
     (case serializerWrite js 15 False body of
        Inl e \<Rightarrow> Inl e
      | Inr bs \<Rightarrow> Inr \<lparr>own = Some OwnArray, data = bs\<rparr>)"

definition serialize :: "'v Host \<Rightarrow> 'v \<Rightarrow> string \<Rightarrow> SerializeArrayBufferBehavior \<Rightarrow> error + Serialized" where
  \<open>serialize js body contentType bufferBehavior =
     (if contentType = ContentType_TEXT then
        if \<not> isString js body then
          Inl (TypeError (''Content Type "'' @ ContentType_TEXT @
                 ''" requires a value of type string, but received: '' @ typeOf js body))
        else
          let s = toString js body in Inr \<lparr>own = Some OwnString, data = asBytes s\<rparr>
      else if contentType = ContentType_BYTES then
        if \<not> isArrayBufferView js body then
          Inl (TypeError (''Content Type "'' @ ContentType_BYTES @
                 ''" requires a value of type ArrayBufferView, but received: '' @ typeOf js body))
        else if bufferBehavior = SHALLOW_REFERENCE then
          Inr \<lparr>own = Some OwnBufferSource, data = bufferSource js body\<rparr>
        else if canDetach js body then
          Inr \<lparr>own = Some OwnBackingStore, data = bufferSource js body\<rparr>
        else
          Inr \<lparr>own = Some OwnArray, data = bufferSource js body\<rparr>
      else if contentType = ContentType_JSON then
        (case toJson js body of
           Inl e \<Rightarrow> Inl e
         | Inr s \<Rightarrow> Inr \<lparr>own = Some OwnString, data = asBytes s\<rparr>)
      else if contentType = ContentType_V8 then serializeV8 js body
      else Inl (TypeError (''Unsupported queue message content type: '' @ contentType)))\<close>

text \<open>
  \<^verbatim>\<open>deserialize(js, body, contentType)\<close>, the overload for a byte array and an optional
  content type.
\<close>

definition deserialize :: "'v Host \<Rightarrow> byte list \<Rightarrow> string option \<Rightarrow> error + 'v" where
  "deserialize js body contentType =
     (let type = (case contentType of None \<Rightarrow> ContentType_V8 | Some t \<Rightarrow> t) in
      if type = ContentType_TEXT then Inr (str js (asChars body))
      else if type = ContentType_BYTES then Inr (bytes js body)
      else if type = ContentType_JSON then fromJson js (asChars body)
      else if type = ContentType_V8 then readValue js body
      else Inl (TypeError (''Unsupported queue message content type: '' @ type)))"

text \<open>
  Decoding what encoding gave, for a content type: \<open>decode(encode(v, tag), tag)\<close>.
\<close>

definition roundTrip :: "'v Host \<Rightarrow> 'v \<Rightarrow> string \<Rightarrow> SerializeArrayBufferBehavior \<Rightarrow> error + 'v" where
  "roundTrip js v contentType bufferBehavior =
     (case serialize js v contentType bufferBehavior of
        Inl e \<Rightarrow> Inl e
      | Inr s \<Rightarrow> deserialize js (data s) (Some contentType))"

subsection \<open>\<^verbatim>\<open>WorkerQueue::send\<close>\<close>

text \<open>
  \<^verbatim>\<open>kj::HttpHeaders\<close>: \<^verbatim>\<open>set(CONTENT_TYPE, v)\<close> stores the indexed Content-Type header,
  \<^verbatim>\<open>add(name, v)\<close> appends a header by name. The request is what \<^verbatim>\<open>client->request\<close> is
  given, together with the body written to it.
\<close>

record HttpHeaders =
  contentTypeHeader :: "string option"
  added :: "(string \<times> string) list"

record HttpRequest =
  httpMethod :: string
  url :: string
  headers :: HttpHeaders
  expectedBodySize :: nat
  requestBody :: "byte list"

definition emptyHeaders :: HttpHeaders where
  "emptyHeaders = \<lparr>contentTypeHeader = None, added = []\<rparr>"

definition setContentType :: "string \<Rightarrow> HttpHeaders \<Rightarrow> HttpHeaders" where
  "setContentType v h = h\<lparr>contentTypeHeader := Some v\<rparr>"

definition addHeader :: "string \<Rightarrow> string \<Rightarrow> HttpHeaders \<Rightarrow> HttpHeaders" where
  "addHeader name v h = h\<lparr>added := added h @ [(name, v)]\<rparr>"

definition HDR_MSG_FORMAT :: string where "HDR_MSG_FORMAT = ''X-Msg-Fmt''"
definition HDR_MSG_DELAY :: string where "HDR_MSG_DELAY = ''X-Msg-Delay-Secs''"

text \<open>
  Modelled from the spec: \<^verbatim>\<open>MimeType::OCTET_STREAM\<close> and \<^verbatim>\<open>MimeType::JSON\<close> are declared in
  workerd/util/mimetype.h, which is not among the sources. The spec gives the Content-Type
  of a single send and of a batch.
\<close>

definition MimeType_OCTET_STREAM :: string where
  "MimeType_OCTET_STREAM = ''application/octet-stream''"

definition MimeType_JSON :: string where
  "MimeType_JSON = ''application/json''"

text \<open>
  Modelled from the spec: \<^verbatim>\<open>SendOptions\<close>, \<^verbatim>\<open>MessageSendRequest\<close> and \<^verbatim>\<open>SendBatchOptions\<close>
  are declared in queue.h; they carry the optional content type and the optional delay that
  queue.c++ reads, and a message its body.
\<close>

record SendOptions =
  sendContentType :: "string option"
  sendDelaySeconds :: "cint option"

text \<open>
  \<^verbatim>\<open>send\<close> up to the request it makes: the headers, the expected body size and the body that
  \<^verbatim>\<open>handleSend\<close> writes.
\<close>

definition send :: "'v Host \<Rightarrow> FeatureFlags \<Rightarrow> 'v \<Rightarrow> SendOptions option \<Rightarrow> error + HttpRequest" where
  "send js flags body options =
     (if isUndefined js body then Inl (TypeError ''Message body cannot be undefined'')
      else
        let headers0 = setContentType MimeType_OCTET_STREAM emptyHeaders;
            validated = (case options of
                           None \<Rightarrow> Inr None
                         | Some opts \<Rightarrow>
                             (case sendContentType opts of
                                None \<Rightarrow> Inr None
                              | Some type \<Rightarrow>
                                  (case validateContentType type of
                                     Inl e \<Rightarrow> Inl e
                                   | Inr validatedType \<Rightarrow> Inr (Some validatedType))))
        in case validated of
             Inl e \<Rightarrow> Inl e
           | Inr contentType \<Rightarrow>
               let headers1 = (case contentType of
                                 None \<Rightarrow> headers0
                               | Some validatedType \<Rightarrow> addHeader HDR_MSG_FORMAT validatedType headers0);
                   headers2 = (case options of
                                 None \<Rightarrow> headers1
                               | Some opts \<Rightarrow>
                                   (case sendDelaySeconds opts of
                                      None \<Rightarrow> headers1
                                    | Some secs \<Rightarrow> addHeader HDR_MSG_DELAY (str_cint secs) headers1));
                   (headers3, serialized) =
                     (case contentType of
                        Some type \<Rightarrow> (headers2, serialize js body type DEEP_COPY)
                      | None \<Rightarrow>
                          if getQueuesJsonMessages flags then
                            (addHeader ''X-Msg-Fmt'' ContentType_JSON headers2,
                             serialize js body ContentType_JSON DEEP_COPY)
                          else (headers2, serializeV8 js body))
               in case serialized of
                    Inl e \<Rightarrow> Inl e
                  | Inr item \<Rightarrow>
                      Inr \<lparr>httpMethod = ''POST'', url = ''https://fake-host/message'',
                           headers = headers3, expectedBodySize = length (data item),
                           requestBody = data item\<rparr>)"

subsection \<open>\<^verbatim>\<open>WorkerQueue::sendBatch\<close>\<close>

record 'v MessageSendRequest =
  messageBody :: 'v
  messageContentType :: "string option"
  messageDelaySeconds :: "cint option"

record SendBatchOptions =
  batchOptDelaySeconds :: "cint option"

record SerializedWithOptions =
  itemBody :: Serialized
  itemContentType :: "string option"
  itemDelaySeconds :: "cint option"

text \<open>
  A \<^verbatim>\<open>size_t\<close> is an unsigned 64-bit number; sums and products of sizes wrap around.
\<close>

definition size_t :: "nat \<Rightarrow> nat" where
  "size_t n = n mod 2 ^ 64"

text \<open>
  The body of the first loop of \<^verbatim>\<open>sendBatch\<close> for one message: the item it adds to the
  builder. \<^verbatim>\<open>serialize\<close> is given the content type as the caller wrote it, the item keeps
  the validated one.
\<close>

definition serializeMessage :: "'v Host \<Rightarrow> FeatureFlags \<Rightarrow> 'v MessageSendRequest \<Rightarrow> error + SerializedWithOptions" where
  "serializeMessage js flags message =
     (let body = messageBody message in
      if isUndefined js body then Inl (TypeError ''Message body cannot be undefined'')
      else
        case messageContentType message of
          Some contentType \<Rightarrow>
            (case validateContentType contentType of
               Inl e \<Rightarrow> Inl e
             | Inr validatedType \<Rightarrow>
                 (case serialize js body contentType SHALLOW_REFERENCE of
                    Inl e \<Rightarrow> Inl e
                  | Inr s \<Rightarrow> Inr \<lparr>itemBody = s, itemContentType = Some validatedType,
                                  itemDelaySeconds = messageDelaySeconds message\<rparr>))
        | None \<Rightarrow>
            if getQueuesJsonMessages flags then
              (case serialize js body ContentType_JSON SHALLOW_REFERENCE of
                 Inl e \<Rightarrow> Inl e
               | Inr s \<Rightarrow> Inr \<lparr>itemBody = s, itemContentType = Some ContentType_JSON,
                               itemDelaySeconds = messageDelaySeconds message\<rparr>)
            else
              (case serializeV8 js body of
                 Inl e \<Rightarrow> Inl e
               | Inr s \<Rightarrow> Inr \<lparr>itemBody = s, itemContentType = None,
                               itemDelaySeconds = messageDelaySeconds message\<rparr>))"

text \<open>
  The first loop, with its three accumulators: the builder, \<^verbatim>\<open>totalSize\<close> and
  \<^verbatim>\<open>largestMessage\<close>. A throw leaves the loop.
\<close>

fun serializeLoop ::
  "'v Host \<Rightarrow> FeatureFlags \<Rightarrow> 'v MessageSendRequest list \<Rightarrow>
   SerializedWithOptions list \<times> nat \<times> nat \<Rightarrow> error + (SerializedWithOptions list \<times> nat \<times> nat)" where
  "serializeLoop js flags [] acc = Inr acc"
| "serializeLoop js flags (message # batch) (builder, totalSize, largestMessage) =
     (case serializeMessage js flags message of
        Inl e \<Rightarrow> Inl e
      | Inr item \<Rightarrow>
          serializeLoop js flags batch
            (builder @ [item],
             size_t (totalSize + length (data (itemBody item))),
             max largestMessage (length (data (itemBody item)))))"

definition estimatedSize :: "nat \<Rightarrow> nat \<Rightarrow> nat" where
  "estimatedSize totalSize messageCount =
     size_t (size_t (size_t (size_t (totalSize + 2) div 3 * 4) + size_t (messageCount * 64)) + 32)"

text \<open>
  The body of the second loop: what iteration \<open>i\<close> appends to \<^verbatim>\<open>bodyBuilder\<close>.
\<close>

definition appendMessage :: "SerializedWithOptions list \<Rightarrow> nat \<Rightarrow> string \<Rightarrow> nat \<Rightarrow> string" where
  \<open>appendMessage serializedBodies messageCount bodyBuilder i =
     (let b1 = bodyBuilder @ ''{"body":"'';
          b2 = b1 @ encodeBase64 (data (itemBody (serializedBodies ! i)));
          b3 = b2 @ [CHR 0x22];
          b4 = (case itemContentType (serializedBodies ! i) of
                  None \<Rightarrow> b3
                | Some contentType \<Rightarrow> b3 @ '',"contentType":"'' @ contentType @ [CHR 0x22]);
          b5 = (case itemDelaySeconds (serializedBodies ! i) of
                  None \<Rightarrow> b4
                | Some delaySecs \<Rightarrow> b4 @ '',"delaySecs": '' @ str_cint delaySecs);
          b6 = b5 @ ''}''
      in if i < messageCount - 1 then b6 @ [CHR '',''] else b6)\<close>

text \<open>
  \<^verbatim>\<open>bodyBuilder\<close> when the \<^verbatim>\<open>KJ_DASSERT\<close> on its size is reached: the envelope around the
  messages, and the terminating NUL.
\<close>

definition buildBody :: "SerializedWithOptions list \<Rightarrow> nat \<Rightarrow> string" where
  \<open>buildBody serializedBodies messageCount =
     foldl (appendMessage serializedBodies messageCount) ''{"messages":['' [0..<messageCount]
     @ '']}'' @ [CHR 0x00]\<close>

text \<open>
  \<^verbatim>\<open>sendBatch\<close> up to the \<^verbatim>\<open>KJ_DASSERT\<close> on the size of \<^verbatim>\<open>bodyBuilder\<close>: the builder with
  its terminating NUL, \<^verbatim>\<open>estimatedSize\<close>, \<^verbatim>\<open>totalSize\<close> and \<^verbatim>\<open>largestMessage\<close>.
\<close>

definition sendBatchBody ::
  "'v Host \<Rightarrow> FeatureFlags \<Rightarrow> 'v MessageSendRequest list \<Rightarrow> error + (string \<times> nat \<times> nat \<times> nat)" where
  "sendBatchBody js flags batch =
     (if \<not> length batch > 0 then Inl (TypeError ''sendBatch() requires at least one message'')
      else
        let messageCount = length batch in
        case serializeLoop js flags batch ([], 0, 0) of
          Inl e \<Rightarrow> Inl e
        | Inr (serializedBodies, totalSize, largestMessage) \<Rightarrow>
            Inr (buildBody serializedBodies messageCount,
                 estimatedSize totalSize messageCount, totalSize, largestMessage))"

text \<open>
  \<^verbatim>\<open>sendBatch\<close> up to the request it makes. \<^verbatim>\<open>kj::String body(bodyBuilder.releaseAsArray())\<close>
  takes the array with its terminating NUL; the string's size and its bytes leave the NUL
  out. The two \<^verbatim>\<open>KJ_DASSERT\<close>s are checked in debug builds only and are no step of the
  model.
\<close>

definition sendBatch ::
  "'v Host \<Rightarrow> FeatureFlags \<Rightarrow> 'v MessageSendRequest list \<Rightarrow> SendBatchOptions option \<Rightarrow> error + HttpRequest" where
  "sendBatch js flags batch options =
     (case sendBatchBody js flags batch of
        Inl e \<Rightarrow> Inl e
      | Inr (bodyBuilder, estimated, totalSize, largestMessage) \<Rightarrow>
          let messageCount = length batch;
              body = butlast bodyBuilder;
              h1 = addHeader ''CF-Queue-Batch-Count'' (str_nat messageCount) emptyHeaders;
              h2 = addHeader ''CF-Queue-Batch-Bytes'' (str_nat totalSize) h1;
              h3 = addHeader ''CF-Queue-Largest-Msg'' (str_nat largestMessage) h2;
              h4 = setContentType MimeType_JSON h3;
              h5 = (case options of
                      None \<Rightarrow> h4
                    | Some opts \<Rightarrow>
                        (case batchOptDelaySeconds opts of
                           None \<Rightarrow> h4
                         | Some secs \<Rightarrow> addHeader HDR_MSG_DELAY (str_cint secs) h4))
          in Inr \<lparr>httpMethod = ''POST'', url = ''https://fake-host/batch'',
                  headers = h5, expectedBodySize = length body,
                  requestBody = asBytes body\<rparr>)"

text \<open>
  The serialized payload of each message of a batch, and its size in bytes.
\<close>

definition payloadSize :: "SerializedWithOptions \<Rightarrow> nat" where
  "payloadSize item = length (data (itemBody item))"

definition payloads :: "'v Host \<Rightarrow> FeatureFlags \<Rightarrow> 'v MessageSendRequest list \<Rightarrow> byte list list" where
  "payloads js flags batch =
     map (\<lambda>message. case serializeMessage js flags message of
                       Inl e \<Rightarrow> []
                     | Inr item \<Rightarrow> data (itemBody item)) batch"

definition payloadSizes :: "'v Host \<Rightarrow> FeatureFlags \<Rightarrow> 'v MessageSendRequest list \<Rightarrow> nat list" where
  "payloadSizes js flags batch = map length (payloads js flags batch)"

subsection \<open>The batch wire body as the spec writes it\<close>

text \<open>
  The spec's shape of the wire body: an envelope \<open>{"messages":[...]}\<close> around the objects of
  the messages, joined by commas; each object has the field \<open>body\<close> with the base64 text of
  the payload, then \<open>contentType\<close> when the message has one, then \<open>delaySecs\<close> when the
  message has a delay. These definitions follow the spec; the theorems compare them with
  what the loop of \<^verbatim>\<open>sendBatch\<close> builds. The code writes a space after the colon of
  \<open>delaySecs\<close>, which JSON allows.
\<close>

fun joinWith :: "string \<Rightarrow> string list \<Rightarrow> string" where
  "joinWith sep [] = []"
| "joinWith sep [x] = x"
| "joinWith sep (x # y # ys) = x @ sep @ joinWith sep (y # ys)"

definition messageJson :: "SerializedWithOptions \<Rightarrow> string" where
  \<open>messageJson item =
     ''{"body":"'' @ encodeBase64 (data (itemBody item)) @ ''"'' @
     (case itemContentType item of
        None \<Rightarrow> []
      | Some contentType \<Rightarrow> '',"contentType":"'' @ contentType @ ''"'') @
     (case itemDelaySeconds item of
        None \<Rightarrow> []
      | Some delaySecs \<Rightarrow> '',"delaySecs": '' @ str_cint delaySecs) @
     ''}''\<close>

definition batchJson :: "SerializedWithOptions list \<Rightarrow> string" where
  \<open>batchJson items = ''{"messages":['' @ joinWith '','' (map messageJson items) @ '']}''\<close>

subsection \<open>Reading the batch body back\<close>

text \<open>
  \<^verbatim>\<open>sendBatch\<close> asserts that the host's JSON parser reads the body as an object. V8's parser
  is outside the repository; the model has a reader of its own for the JSON the body can
  contain (RFC 8259 without string escapes, fractions and exponents): objects, arrays,
  strings, integers, the three literals, and white space between tokens. Each recursive call
  takes one unit of fuel, and \<open>parseJson\<close> gives two units for each character and two more,
  which is more than a text can use.
\<close>

datatype json =
  JNull
  | JBool bool
  | JNumber int
  | JString string
  | JArray "json list"
  | JObject "(string \<times> json) list"

definition isWs :: "char \<Rightarrow> bool" where
  "isWs c \<longleftrightarrow> c = CHR '' '' \<or> c = CHR 0x09 \<or> c = CHR 0x0A \<or> c = CHR 0x0D"

definition skipWs :: "string \<Rightarrow> string" where
  "skipWs s = dropWhile isWs s"

definition isDigit :: "char \<Rightarrow> bool" where
  "isDigit c \<longleftrightarrow> c \<in> set ''0123456789''"

definition digitValue :: "char \<Rightarrow> nat" where
  "digitValue c = of_char c - 48"

definition parseNat :: "string \<Rightarrow> nat" where
  "parseNat s = foldl (\<lambda>n c. 10 * n + digitValue c) 0 s"

definition plainChar :: "char \<Rightarrow> bool" where
  "plainChar c \<longleftrightarrow> c \<noteq> CHR 0x22 \<and> c \<noteq> CHR 0x5C \<and> 32 \<le> (of_char c :: nat)"

text \<open>A string: a double quote, characters that need no escape, a double quote.\<close>

definition parseString :: "string \<Rightarrow> (string \<times> string) option" where
  "parseString s =
     (case s of
        [] \<Rightarrow> None
      | c # r \<Rightarrow>
          if c \<noteq> CHR 0x22 then None
          else
            let chars = takeWhile (\<lambda>c. c \<noteq> CHR 0x22) r;
                rest = dropWhile (\<lambda>c. c \<noteq> CHR 0x22) r
            in if rest = [] \<or> \<not> list_all plainChar chars then None
               else Some (chars, tl rest))"

text \<open>An integer: an optional minus sign and at least one digit.\<close>

definition parseNumber :: "string \<Rightarrow> (int \<times> string) option" where
  "parseNumber s =
     (let negative = (case s of [] \<Rightarrow> False | c # r \<Rightarrow> c = CHR ''-'');
          r = (if negative then tl s else s);
          digits = takeWhile isDigit r;
          rest = dropWhile isDigit r
      in if digits = [] then None
         else Some (if negative then - int (parseNat digits) else int (parseNat digits), rest))"

definition parseLiteral :: "string \<Rightarrow> (json \<times> string) option" where
  "parseLiteral s =
     (if take 4 s = ''null'' then Some (JNull, drop 4 s)
      else if take 4 s = ''true'' then Some (JBool True, drop 4 s)
      else if take 5 s = ''false'' then Some (JBool False, drop 5 s)
      else None)"

fun parseValue :: "nat \<Rightarrow> string \<Rightarrow> (json \<times> string) option"
  and parseElements :: "nat \<Rightarrow> string \<Rightarrow> (json list \<times> string) option"
  and parseMembers :: "nat \<Rightarrow> string \<Rightarrow> ((string \<times> json) list \<times> string) option" where
  "parseValue 0 s = None"
| "parseValue (Suc n) s =
     (case skipWs s of
        [] \<Rightarrow> None
      | c # r \<Rightarrow>
          if c = CHR ''{'' then
            (case skipWs r of
               [] \<Rightarrow> None
             | c' # r' \<Rightarrow>
                 if c' = CHR ''}'' then Some (JObject [], r')
                 else (case parseMembers n (c' # r') of
                         None \<Rightarrow> None
                       | Some (members, r'') \<Rightarrow> Some (JObject members, r'')))
          else if c = CHR ''['' then
            (case skipWs r of
               [] \<Rightarrow> None
             | c' # r' \<Rightarrow>
                 if c' = CHR '']'' then Some (JArray [], r')
                 else (case parseElements n (c' # r') of
                         None \<Rightarrow> None
                       | Some (elements, r'') \<Rightarrow> Some (JArray elements, r'')))
          else if c = CHR 0x22 then
            (case parseString (c # r) of
               None \<Rightarrow> None
             | Some (chars, r') \<Rightarrow> Some (JString chars, r'))
          else if c = CHR ''-'' \<or> isDigit c then
            (case parseNumber (c # r) of
               None \<Rightarrow> None
             | Some (i, r') \<Rightarrow> Some (JNumber i, r'))
          else parseLiteral (c # r))"
| "parseElements 0 s = None"
| "parseElements (Suc n) s =
     (case parseValue n s of
        None \<Rightarrow> None
      | Some (v, r) \<Rightarrow>
          (case skipWs r of
             [] \<Rightarrow> None
           | c # r' \<Rightarrow>
               if c = CHR '','' then
                 (case parseElements n r' of
                    None \<Rightarrow> None
                  | Some (vs, r'') \<Rightarrow> Some (v # vs, r''))
               else if c = CHR '']'' then Some ([v], r')
               else None))"
| "parseMembers 0 s = None"
| "parseMembers (Suc n) s =
     (case parseString (skipWs s) of
        None \<Rightarrow> None
      | Some (k, r) \<Rightarrow>
          (case skipWs r of
             [] \<Rightarrow> None
           | c # r1 \<Rightarrow>
               if c \<noteq> CHR '':'' then None
               else
                 (case parseValue n r1 of
                    None \<Rightarrow> None
                  | Some (v, r2) \<Rightarrow>
                      (case skipWs r2 of
                         [] \<Rightarrow> None
                       | c' # r3 \<Rightarrow>
                           if c' = CHR '','' then
                             (case parseMembers n r3 of
                                None \<Rightarrow> None
                              | Some (members, r4) \<Rightarrow> Some ((k, v) # members, r4))
                           else if c' = CHR ''}'' then Some ([(k, v)], r3)
                           else None))))"

definition parseJson :: "string \<Rightarrow> json option" where
  "parseJson s =
     (case parseValue (2 * length s + 2) s of
        None \<Rightarrow> None
      | Some (v, r) \<Rightarrow> if skipWs r = [] then Some v else None)"

text \<open>
  The objects the spec expects in the body, from the messages of the batch: the content
  type that applies to a message, its serialized payload, and the JSON object with the
  fields \<open>body\<close>, \<open>contentType\<close> and \<open>delaySecs\<close> in this order, the last two only when
  present.
\<close>

definition appliedContentType :: "FeatureFlags \<Rightarrow> 'v MessageSendRequest \<Rightarrow> string option" where
  "appliedContentType flags message =
     (case messageContentType message of
        Some contentType \<Rightarrow> Some (toLower contentType)
      | None \<Rightarrow> if getQueuesJsonMessages flags then Some ContentType_JSON else None)"

definition messagePayload :: "'v Host \<Rightarrow> FeatureFlags \<Rightarrow> 'v MessageSendRequest \<Rightarrow> byte list" where
  "messagePayload js flags message =
     (case serializeMessage js flags message of
        Inl e \<Rightarrow> []
      | Inr item \<Rightarrow> data (itemBody item))"

definition messageObject :: "'v Host \<Rightarrow> FeatureFlags \<Rightarrow> 'v MessageSendRequest \<Rightarrow> json" where
  "messageObject js flags message =
     JObject ([(''body'', JString (encodeBase64 (messagePayload js flags message)))] @
              (case appliedContentType flags message of
                 None \<Rightarrow> []
               | Some t \<Rightarrow> [(''contentType'', JString t)]) @
              (case messageDelaySeconds message of
                 None \<Rightarrow> []
               | Some secs \<Rightarrow> [(''delaySecs'', JNumber (sint secs))]))"

text \<open>The JSON object of an item of the builder, with the same fields.\<close>

definition itemObject :: "SerializedWithOptions \<Rightarrow> json" where
  "itemObject item =
     JObject ([(''body'', JString (encodeBase64 (data (itemBody item))))] @
              (case itemContentType item of
                 None \<Rightarrow> []
               | Some t \<Rightarrow> [(''contentType'', JString t)]) @
              (case itemDelaySeconds item of
                 None \<Rightarrow> []
               | Some secs \<Rightarrow> [(''delaySecs'', JNumber (sint secs))]))"

text \<open>
  The item the spec expects for a message (the owner of the data aside), so that
  \<open>messageJson\<close> of it is the text of the message's object and \<open>batchJson\<close> of the items of
  the messages is the text of the body.
\<close>

definition messageItem :: "'v Host \<Rightarrow> FeatureFlags \<Rightarrow> 'v MessageSendRequest \<Rightarrow> SerializedWithOptions" where
  "messageItem js flags message =
     \<lparr>itemBody = \<lparr>own = None, data = messagePayload js flags message\<rparr>,
      itemContentType = appliedContentType flags message,
      itemDelaySeconds = messageDelaySeconds message\<rparr>"

subsection \<open>Promises\<close>

text \<open>
  \<^verbatim>\<open>QueueCustomEventImpl::run\<close> joins kj promises. A promise of the model says whether and
  when the promise settles, and with what: \<open>None\<close> is a promise that never settles,
  \<open>Some (t, Resolved x)\<close> one that resolves to \<open>x\<close> at the turn \<open>t\<close> of the event loop, and
  \<open>Some (t, Rejected e)\<close> one that rejects then. The combinators are those of kj that \<open>run\<close>
  uses: \<^verbatim>\<open>then\<close> with a function, with a function that returns a promise, and with an error
  handler; \<^verbatim>\<open>catch_\<close>; and \<^verbatim>\<open>exclusiveJoin\<close>, which settles as the first of its two
  promises to settle does (as the left one when both settle at the same turn) and cancels
  the other.
\<close>

datatype 'a settled = Resolved 'a | Rejected error

type_synonym 'a promise = "(nat \<times> 'a settled) option"

definition promiseThen :: "('a \<Rightarrow> 'b) \<Rightarrow> 'a promise \<Rightarrow> 'b promise" where
  "promiseThen f p =
     (case p of
        None \<Rightarrow> None
      | Some (t, Resolved x) \<Rightarrow> Some (t, Resolved (f x))
      | Some (t, Rejected e) \<Rightarrow> Some (t, Rejected e))"

definition thenPromise :: "('a \<Rightarrow> 'b promise) \<Rightarrow> 'a promise \<Rightarrow> 'b promise" where
  "thenPromise f p =
     (case p of
        None \<Rightarrow> None
      | Some (t, Rejected e) \<Rightarrow> Some (t, Rejected e)
      | Some (t, Resolved x) \<Rightarrow>
          (case f x of
             None \<Rightarrow> None
           | Some (t', r) \<Rightarrow> Some (max t t', r)))"

definition thenElse :: "('a \<Rightarrow> 'b) \<Rightarrow> (error \<Rightarrow> 'b) \<Rightarrow> 'a promise \<Rightarrow> 'b promise" where
  "thenElse f g p =
     (case p of
        None \<Rightarrow> None
      | Some (t, Resolved x) \<Rightarrow> Some (t, Resolved (f x))
      | Some (t, Rejected e) \<Rightarrow> Some (t, Resolved (g e)))"

definition promiseCatch :: "(error \<Rightarrow> 'a) \<Rightarrow> 'a promise \<Rightarrow> 'a promise" where
  "promiseCatch g p = thenElse (\<lambda>x. x) g p"

definition exclusiveJoin :: "'a promise \<Rightarrow> 'a promise \<Rightarrow> 'a promise" where
  "exclusiveJoin p q =
     (case p of
        None \<Rightarrow> q
      | Some (t, r) \<Rightarrow>
          (case q of
             None \<Rightarrow> Some (t, r)
           | Some (t', r') \<Rightarrow> if t \<le> t' then Some (t, r) else Some (t', r')))"

definition immediate :: "'a \<Rightarrow> 'a promise" where
  "immediate x = Some (0, Resolved x)"

subsection \<open>\<^verbatim>\<open>startQueueEvent\<close> and \<^verbatim>\<open>QueueCustomEventImpl::run\<close>\<close>

text \<open>
  An exported handler may have a \<^verbatim>\<open>queue\<close> function; calling it gives the promise that the
  handler's work settles. Without an exported handler the event goes to the listeners of
  the global scope, of which there are \<open>handlerCount\<close>.
\<close>

record ExportedHandler =
  queue :: "unit promise option"

record StartQueueEventResponse =
  exportedHandlerProm :: "unit promise option"
  isServiceWorkerHandler :: bool

definition startQueueEvent ::
  "FeatureFlags \<Rightarrow> ExportedHandler option \<Rightarrow> nat \<Rightarrow> error + StartQueueEventResponse" where
  "startQueueEvent flags exportedHandler handlerCount =
     (case exportedHandler of
        Some h \<Rightarrow>
          (case queue h of
             Some promise \<Rightarrow>
               if getQueueConsumerNoWaitForWaitUntil flags then
                 Inr \<lparr>exportedHandlerProm = Some promise, isServiceWorkerHandler = False\<rparr>
               else Inr \<lparr>exportedHandlerProm = None, isServiceWorkerHandler = False\<rparr>
           | None \<Rightarrow> Inl (Error ''Handler does not export a queue() function.''))
      | None \<Rightarrow>
          if handlerCount = 0 then Inl (Error ''No event listener registered for queue messages.'')
          else Inr \<lparr>exportedHandlerProm = None, isServiceWorkerHandler = True\<rparr>)"

text \<open>
  \<^verbatim>\<open>context.run\<close> calls \<^verbatim>\<open>startQueueEvent\<close> under the isolate lock at some turn; its promise
  resolves then, or rejects when \<^verbatim>\<open>startQueueEvent\<close> threw.
\<close>

definition contextRun :: "nat \<Rightarrow> error + StartQueueEventResponse \<Rightarrow> StartQueueEventResponse promise" where
  "contextRun t started =
     (case started of
        Inl e \<Rightarrow> Some (t, Rejected e)
      | Inr resp \<Rightarrow> Some (t, Resolved resp))"

datatype FinishScheduledResult = COMPLETED | TIMEOUT | ABORTED

text \<open>
  What \<open>run\<close> reads from its surroundings: the promise of \<^verbatim>\<open>limitScheduled()\<close>, the promise
  of \<^verbatim>\<open>onAbort()\<close>, the result of \<^verbatim>\<open>finishScheduled()\<close>, \<^verbatim>\<open>waitUntilStatus()\<close> and
  \<^verbatim>\<open>getLimitsExceeded()\<close>.
\<close>

record RunEnv =
  limitScheduled :: "unit promise"
  onAbort :: "unit promise"
  finishScheduled :: FinishScheduledResult
  waitUntilStatus :: EventOutcome
  getLimitsExceeded :: "EventOutcome option"

text \<open>
  The promise chain of the path with \<^verbatim>\<open>queueConsumerNoWaitForWaitUntil\<close>: the handler's
  branch, joined with the time limit and with the abort.
\<close>

definition handlerBranch :: "StartQueueEventResponse promise \<Rightarrow> EventOutcome promise" where
  "handlerBranch runProm =
     promiseCatch (\<lambda>e. EXCEPTION)
       (thenPromise
          (\<lambda>resp. case exportedHandlerProm resp of
                     Some handlerProm \<Rightarrow> promiseThen (\<lambda>u. OK) handlerProm
                   | None \<Rightarrow> immediate OK)
          runProm)"

definition race :: "StartQueueEventResponse promise \<Rightarrow> RunEnv \<Rightarrow> EventOutcome promise" where
  "race runProm env =
     exclusiveJoin
       (exclusiveJoin (handlerBranch runProm) (promiseThen (\<lambda>u. EXCEEDED_CPU) (limitScheduled env)))
       (thenElse (\<lambda>u. EXCEPTION) (\<lambda>e. EXCEPTION) (onAbort env))"

text \<open>
  \<^verbatim>\<open>queueEventHolder->isServiceWorkerHandler\<close> when the race has settled at turn \<open>t\<close>: false
  until \<^verbatim>\<open>runProm\<close> has resolved and stored the response.
\<close>

definition holderIsServiceWorker :: "StartQueueEventResponse promise \<Rightarrow> nat \<Rightarrow> bool" where
  "holderIsServiceWorker runProm t =
     (case runProm of
        Some (t', Resolved resp) \<Rightarrow> t' \<le> t \<and> isServiceWorkerHandler resp
      | _ \<Rightarrow> False)"

text \<open>
  \<open>run\<close>: \<open>None\<close> when it never returns, \<open>Inl\<close> when its promise rejects, and the outcome of
  its result otherwise, beside the ledger, which \<open>run\<close> reads and writes nowhere: the ledger
  it is given, with what the handler did to it, is the ledger that is reported.
\<close>

definition run ::
  "FeatureFlags \<Rightarrow> StartQueueEventResponse promise \<Rightarrow> RunEnv \<Rightarrow> QueueEventResult \<Rightarrow>
   ((error + EventOutcome) \<times> QueueEventResult) option" where
  "run compatFlags runProm env ledger =
     (if getQueueConsumerNoWaitForWaitUntil compatFlags then
        (case race runProm env of
           None \<Rightarrow> None
         | Some (t, Rejected e) \<Rightarrow> Some (Inl e, ledger)
         | Some (t, Resolved outcome) \<Rightarrow>
             let outcome1 =
                   (if outcome = OK \<and> holderIsServiceWorker runProm t then
                      (let completed = (finishScheduled env = COMPLETED)
                       in if completed then waitUntilStatus env else EXCEEDED_CPU)
                    else outcome);
                 outcome2 = (case getLimitsExceeded env of
                               Some status \<Rightarrow> status
                             | None \<Rightarrow> outcome1)
             in Some (Inr outcome2, ledger))
      else
        (let completed = (finishScheduled env = COMPLETED)
         in Some (Inr (if completed then waitUntilStatus env else EXCEEDED_CPU), ledger)))"

text \<open>A promise settles after turn \<open>t\<close> when it never settles or settles at a later turn.\<close>

definition settlesAfter :: "nat \<Rightarrow> 'a promise \<Rightarrow> bool" where
  "settlesAfter t p = (case p of None \<Rightarrow> True | Some (t', r) \<Rightarrow> t < t')"

subsection \<open>A concrete host\<close>

text \<open>
  A small type of JavaScript values and a host over it, to run the model on concrete
  inputs: strings, byte views (detachable or not), numbers, and \<open>undefined\<close>. Its JSON and
  structured formats cover numbers and strings in the simplest way: a number is its decimal
  digits, a string is itself between double quotes (JSON) or after a tag byte (structured).
\<close>

datatype JsValue =
  JsUndefined
  | JsString string
  | JsBytes "byte list" bool
  | JsNumber nat

definition testHost :: "JsValue Host" where
  \<open>testHost =
     \<lparr>isUndefined = (\<lambda>v. v = JsUndefined),
      isString = (\<lambda>v. case v of JsString s \<Rightarrow> True | _ \<Rightarrow> False),
      isArrayBufferView = (\<lambda>v. case v of JsBytes bs d \<Rightarrow> True | _ \<Rightarrow> False),
      typeOf = (\<lambda>v. case v of JsUndefined \<Rightarrow> ''undefined'' | JsString s \<Rightarrow> ''string''
                       | JsBytes bs d \<Rightarrow> ''object'' | JsNumber n \<Rightarrow> ''number''),
      toString = (\<lambda>v. case v of JsString s \<Rightarrow> s | JsNumber n \<Rightarrow> str_nat n
                         | JsUndefined \<Rightarrow> ''undefined'' | JsBytes bs d \<Rightarrow> ''[object Uint8Array]''),
      toJson = (\<lambda>v. case v of JsNumber n \<Rightarrow> Inr (str_nat n)
                       | JsString s \<Rightarrow> Inr ([CHR 0x22] @ s @ [CHR 0x22])
                       | _ \<Rightarrow> Inl (JsException ''TypeError: not JSON-serializable'')),
      serializerWrite = (\<lambda>version omitHeader v.
                       case v of JsNumber n \<Rightarrow> Inr (255 # of_nat version # 73 # asBytes (str_nat n))
                       | JsString s \<Rightarrow> Inr (255 # of_nat version # 34 # asBytes s)
                       | _ \<Rightarrow> Inl (JsException ''DataCloneError'')),
      bufferSource = (\<lambda>v. case v of JsBytes bs d \<Rightarrow> bs | _ \<Rightarrow> []),
      canDetach = (\<lambda>v. case v of JsBytes bs d \<Rightarrow> d | _ \<Rightarrow> False),
      str = JsString,
      bytes = (\<lambda>bs. JsBytes bs True),
      fromJson = (\<lambda>s. case s of
                       [] \<Rightarrow> Inl (JsException ''SyntaxError: Unexpected end of JSON input'')
                     | c # cs \<Rightarrow> if c = CHR 0x22 then Inr (JsString (butlast cs))
                                else Inr (JsNumber (parseNat s))),
      readValue = (\<lambda>bs. case bs of
                       h # ver # tag # payload \<Rightarrow>
                         if tag = 73 then Inr (JsNumber (parseNat (asChars payload)))
                         else Inr (JsString (asChars payload))
                     | _ \<Rightarrow> Inl (JsException ''Unable to deserialize cloned data''))\<rparr>\<close>

definition testFlags :: FeatureFlags where
  "testFlags = \<lparr>getQueuesJsonMessages = False, getQueueConsumerNoWaitForWaitUntil = True\<rparr>"

text \<open>
  A batch of two messages: the text \<open>hello\<close> with a delay of 5 seconds, and the bytes
  1, 2, 3.
\<close>

definition testBatch :: "JsValue MessageSendRequest list" where
  "testBatch =
     [\<lparr>messageBody = JsString ''hello'', messageContentType = Some ''text'',
       messageDelaySeconds = Some 5\<rparr>,
      \<lparr>messageBody = JsBytes [1, 2, 3] False, messageContentType = Some ''bytes'',
       messageDelaySeconds = None\<rparr>]"

text \<open>What the first loop of \<^verbatim>\<open>sendBatch\<close> makes of this batch.\<close>

definition testItems :: "SerializedWithOptions list" where
  "testItems =
     [\<lparr>itemBody = \<lparr>own = Some OwnString, data = [104, 101, 108, 108, 111]\<rparr>,
       itemContentType = Some ''text'', itemDelaySeconds = Some 5\<rparr>,
      \<lparr>itemBody = \<lparr>own = Some OwnBufferSource, data = [1, 2, 3]\<rparr>,
       itemContentType = Some ''bytes'', itemDelaySeconds = None\<rparr>]"

definition testBody :: string where
  \<open>testBody =
     ''{"messages":[{"body":"aGVsbG8=","contentType":"text","delaySecs": 5},{"body":"AQID","contentType":"bytes"}]}''\<close>

text \<open>
  Surroundings of a delivery in which no limit elapses and nothing aborts, all
  \<^verbatim>\<open>waitUntil\<close> tasks finish and one of them has failed; and one in which the time limit
  elapses at turn 10.
\<close>

definition testEnv :: RunEnv where
  "testEnv =
     \<lparr>limitScheduled = None, onAbort = None, finishScheduled = COMPLETED,
      waitUntilStatus = EXCEPTION, getLimitsExceeded = None\<rparr>"

definition limitEnv :: RunEnv where
  "limitEnv =
     \<lparr>limitScheduled = Some (10, Resolved ()), onAbort = None, finishScheduled = COMPLETED,
      waitUntilStatus = OK, getLimitsExceeded = None\<rparr>"

text \<open>
  Three deliveries to an exported handler that is started at turn 1: its promise resolves
  at turn 3; its promise never settles; and its promise resolves at turn 3 while the worker
  is aborted at turn 2.
\<close>

definition handlerDone :: "StartQueueEventResponse promise" where
  "handlerDone =
     contextRun 1 (startQueueEvent testFlags (Some \<lparr>queue = Some (Some (3, Resolved ()))\<rparr>) 0)"

definition handlerPending :: "StartQueueEventResponse promise" where
  "handlerPending = contextRun 1 (startQueueEvent testFlags (Some \<lparr>queue = Some None\<rparr>) 0)"

definition abortEnv :: RunEnv where
  "abortEnv = limitEnv\<lparr>onAbort := Some (2, Rejected (Error ''worker aborted''))\<rparr>"

section \<open>Bytes and characters\<close>

lemma asChars_asBytes: "asChars (asBytes s) = s"
proof -
  have "char_of (unat (of_char c :: byte)) = c" for c
  proof -
    have "(of_char c :: byte) = of_nat (of_char c)" by (simp add: of_nat_of_char)
    then have "unat (of_char c :: byte) = of_char c mod 256"
      by (simp add: unat_of_nat del: of_nat_of_char)
    then show ?thesis by (simp add: of_char_mod_256)
  qed
  then show ?thesis by (simp add: asChars_def asBytes_def comp_def)
qed

section \<open>The ledger's invariants\<close>

lemma ledgerInv_default: "ledgerInv defaultResult"
  by (simp add: ledgerInv_def defaultResult_def)

lemma result_logWarning [simp]: "result (logWarning msg s) = result s"
  by (simp add: logWarning_def)

lemma ledgerInv_applyCall:
  assumes "ledgerInv (result s)"
  shows "ledgerInv (result (applyCall s c))"
proof (cases c)
  case (Ack msgId)
  with assms show ?thesis
    by (auto simp: ledgerInv_def QueueMessage_ack_def)
next
  case (Retry msgId options)
  with assms show ?thesis
    by (auto simp: ledgerInv_def QueueMessage_retry_def upsert_def Let_def
        split: option.splits)
next
  case AckAll
  with assms show ?thesis
    by (auto simp: ledgerInv_def QueueEvent_ackAll_def)
next
  case (RetryAll options)
  with assms show ?thesis
    by (auto simp: ledgerInv_def QueueEvent_retryAll_def Let_def split: option.splits)
qed

lemma ledgerInv_applyCalls:
  "ledgerInv (result s) \<Longrightarrow> ledgerInv (result (applyCalls s calls))"
  unfolding applyCalls_def
  by (induction calls arbitrary: s) (simp_all add: ledgerInv_applyCall)

lemma QueueMessage_retry_after_ack:
  "msgId \<in> explicitAcks (result s) \<Longrightarrow> result (QueueMessage_retry msgId options s) = result s"
  by (simp add: QueueMessage_retry_def)

lemma QueueMessage_ack_after_retry:
  "retries (result s) msgId \<noteq> None \<Longrightarrow> result (QueueMessage_ack msgId s) = result s"
  by (simp add: QueueMessage_ack_def)

lemma ack_then_retry:
  "result (applyCalls freshState [Ack msgId, Retry msgId options]) =
     defaultResult\<lparr>explicitAcks := {msgId}\<rparr>"
  by (simp add: applyCalls_def freshState_def defaultResult_def QueueMessage_ack_def
      QueueMessage_retry_def)

text \<open>
  Claim C2. In every state reached from the fresh ledger by calls of \<open>ack\<close>, \<open>retry\<close>,
  \<open>ackAll\<close> and \<open>retryAll\<close>, no message id is both in \<open>explicitAcks\<close> and in \<open>retries\<close>, and
  \<open>ackAll\<close> and \<open>retryBatch.retry\<close> are not both true. The second of two conflicting calls
  for an id leaves the ledger as it was: \<open>ack\<close> then \<open>retry\<close> of one id leaves the id in
  \<open>explicitAcks\<close> only; \<open>ackAll()\<close> after \<open>retryAll()\<close>, and \<open>retryAll()\<close> after \<open>ackAll()\<close>,
  change nothing and log a warning.
\<close>

theorem ledger_exclusive:
  assumes "s = applyCalls freshState calls"
  shows "explicitAcks (result s) \<inter> dom (retries (result s)) = {}
    \<and> \<not> (ackAll (result s) \<and> retry (retryBatch (result s)))
    \<and> (msgId \<in> explicitAcks (result s) \<longrightarrow>
          result (QueueMessage_retry msgId options s) = result s)
    \<and> (retries (result s) msgId \<noteq> None \<longrightarrow>
          result (QueueMessage_ack msgId s) = result s)
    \<and> explicitAcks (result (applyCalls freshState [Ack msgId, Retry msgId options])) = {msgId}
    \<and> retries (result (applyCalls freshState [Ack msgId, Retry msgId options])) = Map.empty
    \<and> (retry (retryBatch (result s)) \<longrightarrow>
          QueueEvent_ackAll s = logWarning ackAllAfterRetryAllMsg s)
    \<and> (ackAll (result s) \<longrightarrow>
          QueueEvent_retryAll options s = logWarning retryAllAfterAckAllMsg s)"
proof -
  have inv: "ledgerInv (result s)"
    unfolding assms by (rule ledgerInv_applyCalls) (simp add: freshState_def ledgerInv_default)
  have excl: "explicitAcks (result s) \<inter> dom (retries (result s)) = {}"
    and flags: "\<not> (ackAll (result s) \<and> retry (retryBatch (result s)))"
    using inv by (simp_all add: ledgerInv_def)
  have ex: "explicitAcks (result (applyCalls freshState [Ack msgId, Retry msgId options])) = {msgId}"
    "retries (result (applyCalls freshState [Ack msgId, Retry msgId options])) = Map.empty"
    by (simp_all add: ack_then_retry defaultResult_def)
  have aa: "retry (retryBatch (result s)) \<longrightarrow>
      QueueEvent_ackAll s = logWarning ackAllAfterRetryAllMsg s"
    by (simp add: QueueEvent_ackAll_def)
  have ra: "ackAll (result s) \<longrightarrow>
      QueueEvent_retryAll options s = logWarning retryAllAfterAckAllMsg s"
    by (simp add: QueueEvent_retryAll_def)
  show ?thesis
    using excl flags ex aa ra QueueMessage_retry_after_ack [of msgId s options]
      QueueMessage_ack_after_retry [of s msgId]
    by blast
qed

theorem ledger_exclusive_witness:
  "explicitAcks (result (applyCalls freshState [Ack ''m1'', Retry ''m2'' None, RetryAll None]))
     \<inter> dom (retries (result (applyCalls freshState [Ack ''m1'', Retry ''m2'' None, RetryAll None]))) = {}
   \<and> ''m1'' \<in> explicitAcks (result (applyCalls freshState [Ack ''m1'', Retry ''m2'' None, RetryAll None]))
   \<and> result (QueueMessage_retry ''m1'' None
        (applyCalls freshState [Ack ''m1'', Retry ''m2'' None, RetryAll None]))
      = result (applyCalls freshState [Ack ''m1'', Retry ''m2'' None, RetryAll None])
   \<and> retries (result (applyCalls freshState [Ack ''m1'', Retry ''m2'' None, RetryAll None])) ''m2'' \<noteq> None
   \<and> result (QueueMessage_ack ''m2''
        (applyCalls freshState [Ack ''m1'', Retry ''m2'' None, RetryAll None]))
      = result (applyCalls freshState [Ack ''m1'', Retry ''m2'' None, RetryAll None])
   \<and> retry (retryBatch (result (applyCalls freshState [Ack ''m1'', Retry ''m2'' None, RetryAll None])))
   \<and> QueueEvent_ackAll (applyCalls freshState [Ack ''m1'', Retry ''m2'' None, RetryAll None])
      = logWarning ackAllAfterRetryAllMsg
          (applyCalls freshState [Ack ''m1'', Retry ''m2'' None, RetryAll None])
   \<and> ackAll (result (applyCalls freshState [AckAll]))
   \<and> QueueEvent_retryAll None (applyCalls freshState [AckAll])
      = logWarning retryAllAfterAckAllMsg (applyCalls freshState [AckAll])"
proof -
  have a: "''m1'' \<in> explicitAcks (result (applyCalls freshState [Ack ''m1'', Retry ''m2'' None, RetryAll None]))"
    by (simp add: applyCalls_def freshState_def defaultResult_def QueueMessage_ack_def
        QueueMessage_retry_def QueueEvent_retryAll_def optionsDelay_def upsert_def)
  have b: "retries (result (applyCalls freshState [Ack ''m1'', Retry ''m2'' None, RetryAll None])) ''m2'' \<noteq> None"
    by (simp add: applyCalls_def freshState_def defaultResult_def QueueMessage_ack_def
        QueueMessage_retry_def QueueEvent_retryAll_def optionsDelay_def upsert_def)
  have c: "retry (retryBatch (result (applyCalls freshState [Ack ''m1'', Retry ''m2'' None, RetryAll None])))"
    by (simp add: applyCalls_def freshState_def defaultResult_def QueueMessage_ack_def
        QueueMessage_retry_def QueueEvent_retryAll_def optionsDelay_def upsert_def)
  have d: "ackAll (result (applyCalls freshState [AckAll]))"
    by (simp add: applyCalls_def freshState_def defaultResult_def QueueEvent_ackAll_def)
  show ?thesis
    using a b c d
      ledger_exclusive [OF refl, of "[Ack ''m1'', Retry ''m2'' None, RetryAll None]" "''m1''" None]
      ledger_exclusive [OF refl, of "[Ack ''m1'', Retry ''m2'' None, RetryAll None]" "''m2''" None]
      ledger_exclusive [OF refl, of "[AckAll]" "''m1''" None]
    by simp
qed

text \<open>
  Claim C1 says that once either whole-batch flag is set, every later \<open>ack\<close> and \<open>retry\<close>
  of a message leaves the ledger unchanged and logs a warning. \<open>QueueMessage::retry\<close> has
  no guard on \<open>retryBatch.retry\<close>: after \<open>retryAll()\<close> on the fresh ledger, \<open>retry\<close> of
  message \<open>m1\<close> records \<open>m1\<close> in \<open>retries\<close>.
\<close>

theorem retry_after_retryAll_counterexample:
  "retry (retryBatch (result (QueueEvent_retryAll None freshState)))
   \<and> result (QueueMessage_retry ''m1'' None (QueueEvent_retryAll None freshState))
       \<noteq> result (QueueEvent_retryAll None freshState)"
proof -
  have "retries (result (QueueMessage_retry ''m1'' None (QueueEvent_retryAll None freshState))) ''m1''
      \<noteq> retries (result (QueueEvent_retryAll None freshState)) ''m1''"
    by (simp add: QueueMessage_retry_def QueueEvent_retryAll_def freshState_def
        defaultResult_def optionsDelay_def upsert_def)
  moreover have "retry (retryBatch (result (QueueEvent_retryAll None freshState)))"
    by (simp add: QueueEvent_retryAll_def freshState_def defaultResult_def optionsDelay_def)
  ultimately show ?thesis by metis
qed

lemma QueueMessage_retry_upserts:
  "\<not> ackAll (result s) \<Longrightarrow> msgId \<notin> explicitAcks (result s) \<Longrightarrow>
   QueueMessage_retry msgId options s =
     s\<lparr>result := (result s)\<lparr>retries :=
        (retries (result s))(msgId \<mapsto> \<lparr>delaySeconds = optionsDelay options\<rparr>)\<rparr>\<rparr>"
  by (cases "optionsDelay options") (simp_all add: QueueMessage_retry_def upsert_def)

text \<open>
  Claim C1, amended. No call raises: the operations are total on the state. With \<open>ackAll\<close>
  set, \<open>ack\<close> returns at once, leaving ledger and log as they were (no warning), and
  \<open>retry\<close> leaves the ledger as it was and logs a warning. With \<open>retryBatch.retry\<close> set and
  \<open>ackAll\<close> not, \<open>ack\<close> leaves the ledger as it was and logs a warning; \<open>retry\<close> is
  ignored with a warning only for an id in \<open>explicitAcks\<close>, and for any other id it stores
  the id's entry in \<open>retries\<close>. \<open>logWarning\<close> changes the log only.
\<close>

theorem whole_batch_flag_then_per_message:
  "(ackAll (result s) \<longrightarrow>
      QueueMessage_ack msgId s = s
      \<and> QueueMessage_retry msgId options s = logWarning (retryAfterAckAllMsg msgId) s)
   \<and> (retry (retryBatch (result s)) \<and> \<not> ackAll (result s) \<longrightarrow>
      QueueMessage_ack msgId s = logWarning (ackAfterRetryAllMsg msgId) s
      \<and> (msgId \<in> explicitAcks (result s) \<longrightarrow>
            QueueMessage_retry msgId options s = logWarning (retryAfterAckMsg msgId) s)
      \<and> (msgId \<notin> explicitAcks (result s) \<longrightarrow>
            QueueMessage_retry msgId options s =
              s\<lparr>result := (result s)\<lparr>retries :=
                  (retries (result s))(msgId \<mapsto> \<lparr>delaySeconds = optionsDelay options\<rparr>)\<rparr>\<rparr>))
   \<and> result (logWarning msg s) = result s
   \<and> warnings (logWarning msg s) = warnings s @ [msg]"
  by (simp add: QueueMessage_ack_def QueueMessage_retry_upserts logWarning_def)
    (simp add: QueueMessage_retry_def logWarning_def)

text \<open>
  Claim C6. For a message id that is not in \<open>explicitAcks\<close>, on a ledger whose \<open>ackAll\<close> is
  not set, two successive \<open>retry\<close> calls leave under the id the delay of the second call:
  the delay it gave, or no delay when it gave none.
\<close>

theorem retry_overwrites_delay:
  assumes "\<not> ackAll (result s)" and "msgId \<notin> explicitAcks (result s)"
  shows "retries (result (QueueMessage_retry msgId second (QueueMessage_retry msgId first s))) msgId
      = Some \<lparr>delaySeconds = optionsDelay second\<rparr>"
  using assms by (simp add: QueueMessage_retry_upserts)

theorem whole_batch_flag_then_per_message_witness:
  "ackAll (result (QueueEvent_ackAll freshState))
   \<and> QueueMessage_ack ''m1'' (QueueEvent_ackAll freshState) = QueueEvent_ackAll freshState
   \<and> QueueMessage_retry ''m1'' None (QueueEvent_ackAll freshState)
       = logWarning (retryAfterAckAllMsg ''m1'') (QueueEvent_ackAll freshState)
   \<and> retry (retryBatch (result (QueueEvent_retryAll None freshState)))
   \<and> \<not> ackAll (result (QueueEvent_retryAll None freshState))
   \<and> QueueMessage_ack ''m1'' (QueueEvent_retryAll None freshState)
       = logWarning (ackAfterRetryAllMsg ''m1'') (QueueEvent_retryAll None freshState)
   \<and> ''m1'' \<notin> explicitAcks (result (QueueEvent_retryAll None freshState))
   \<and> QueueMessage_retry ''m1'' None (QueueEvent_retryAll None freshState)
       = (QueueEvent_retryAll None freshState)\<lparr>result :=
           (result (QueueEvent_retryAll None freshState))\<lparr>retries :=
             (retries (result (QueueEvent_retryAll None freshState)))
               (''m1'' \<mapsto> \<lparr>delaySeconds = optionsDelay None\<rparr>)\<rparr>\<rparr>
   \<and> retry (retryBatch (result (QueueEvent_retryAll None (QueueMessage_ack ''m1'' freshState))))
   \<and> \<not> ackAll (result (QueueEvent_retryAll None (QueueMessage_ack ''m1'' freshState)))
   \<and> ''m1'' \<in> explicitAcks (result (QueueEvent_retryAll None (QueueMessage_ack ''m1'' freshState)))
   \<and> QueueMessage_retry ''m1'' None (QueueEvent_retryAll None (QueueMessage_ack ''m1'' freshState))
       = logWarning (retryAfterAckMsg ''m1'')
           (QueueEvent_retryAll None (QueueMessage_ack ''m1'' freshState))"
proof -
  have a: "ackAll (result (QueueEvent_ackAll freshState))"
    by (simp add: QueueEvent_ackAll_def freshState_def defaultResult_def)
  have r: "retry (retryBatch (result (QueueEvent_retryAll None freshState)))
      \<and> \<not> ackAll (result (QueueEvent_retryAll None freshState))
      \<and> ''m1'' \<notin> explicitAcks (result (QueueEvent_retryAll None freshState))"
    by (simp add: QueueEvent_retryAll_def freshState_def defaultResult_def optionsDelay_def)
  have ar: "retry (retryBatch (result (QueueEvent_retryAll None (QueueMessage_ack ''m1'' freshState))))
      \<and> \<not> ackAll (result (QueueEvent_retryAll None (QueueMessage_ack ''m1'' freshState)))
      \<and> ''m1'' \<in> explicitAcks (result (QueueEvent_retryAll None (QueueMessage_ack ''m1'' freshState)))"
    by (simp add: QueueEvent_retryAll_def QueueMessage_ack_def freshState_def defaultResult_def
        optionsDelay_def)
  show ?thesis
    using a r ar
      whole_batch_flag_then_per_message [of "QueueEvent_ackAll freshState" "''m1''" None]
      whole_batch_flag_then_per_message [of "QueueEvent_retryAll None freshState" "''m1''" None]
      whole_batch_flag_then_per_message
        [of "QueueEvent_retryAll None (QueueMessage_ack ''m1'' freshState)" "''m1''" None]
    by simp
qed

theorem retry_overwrites_delay_witness:
  "\<not> ackAll (result freshState) \<and> ''m1'' \<notin> explicitAcks (result freshState)
   \<and> retries (result (QueueMessage_retry ''m1'' None
        (QueueMessage_retry ''m1'' (Some \<lparr>optDelaySeconds = Some 5\<rparr>) freshState))) ''m1''
      = Some \<lparr>delaySeconds = None\<rparr>
   \<and> retries (result (QueueMessage_retry ''m1'' (Some \<lparr>optDelaySeconds = Some 30\<rparr>)
        (QueueMessage_retry ''m1'' (Some \<lparr>optDelaySeconds = Some 5\<rparr>) freshState))) ''m1''
      = Some \<lparr>delaySeconds = Some 30\<rparr>"
proof -
  have h: "\<not> ackAll (result freshState)" "''m1'' \<notin> explicitAcks (result freshState)"
    by (simp_all add: freshState_def defaultResult_def)
  show ?thesis
    using h
      retry_overwrites_delay [OF h, of None "Some \<lparr>optDelaySeconds = Some 5\<rparr>"]
      retry_overwrites_delay [OF h, of "Some \<lparr>optDelaySeconds = Some 30\<rparr>"
        "Some \<lparr>optDelaySeconds = Some 5\<rparr>"]
    by (simp add: optionsDelay_def)
qed

section \<open>The RPC response replaces the ledger\<close>






section \<open>The content-type codec\<close>

lemma deserialize_tags:
  "deserialize js body (Some ContentType_TEXT) = Inr (str js (asChars body))"
  "deserialize js body (Some ContentType_BYTES) = Inr (bytes js body)"
  "deserialize js body (Some ContentType_JSON) = fromJson js (asChars body)"
  "deserialize js body (Some ContentType_V8) = readValue js body"
  "deserialize js body None = readValue js body"
  by (simp_all add: deserialize_def ContentType_TEXT_def ContentType_BYTES_def
      ContentType_JSON_def ContentType_V8_def)

lemma contentType_distinct:
  "ContentType_BYTES \<noteq> ContentType_TEXT" "ContentType_JSON \<noteq> ContentType_TEXT"
  "ContentType_JSON \<noteq> ContentType_BYTES" "ContentType_V8 \<noteq> ContentType_TEXT"
  "ContentType_V8 \<noteq> ContentType_BYTES" "ContentType_V8 \<noteq> ContentType_JSON"
  by (simp_all add: ContentType_TEXT_def ContentType_BYTES_def ContentType_JSON_def
      ContentType_V8_def)

text \<open>
  Claim C7. For each of the four content types, decoding what \<open>serialize\<close> gave for a value
  under that type gives the value again, for the values of the matching type on which the
  host's own conversions are inverse to each other: a string that \<open>str\<close> rebuilds from its
  characters (text), a byte view that \<open>bytes\<close> rebuilds from its bytes (bytes), a value that
  \<open>fromJson\<close> rebuilds from its \<open>toJson\<close> text (json), and a value that \<open>readValue\<close>
  rebuilds from what the serializer of version 15 wrote (v8, also when the content type is
  absent on decoding). This holds for both buffer behaviours.
\<close>

theorem serialize_deserialize_roundtrip:
  "(isString js v \<and> str js (toString js v) = v \<longrightarrow>
      roundTrip js v ContentType_TEXT behavior = Inr v)
   \<and> (isArrayBufferView js v \<and> bytes js (bufferSource js v) = v \<longrightarrow>
      roundTrip js v ContentType_BYTES behavior = Inr v)
   \<and> (toJson js v = Inr j \<and> fromJson js j = Inr v \<longrightarrow>
      roundTrip js v ContentType_JSON behavior = Inr v)
   \<and> (serializerWrite js 15 False v = Inr bs \<and> readValue js bs = Inr v \<longrightarrow>
      roundTrip js v ContentType_V8 behavior = Inr v
      \<and> (case serializeV8 js v of Inl e \<Rightarrow> Inl e | Inr s \<Rightarrow> deserialize js (data s) None) = Inr v)"
proof (intro conjI impI)
  assume "isString js v \<and> str js (toString js v) = v"
  then show "roundTrip js v ContentType_TEXT behavior = Inr v"
    by (simp add: roundTrip_def serialize_def deserialize_tags asChars_asBytes)
next
  assume "isArrayBufferView js v \<and> bytes js (bufferSource js v) = v"
  then show "roundTrip js v ContentType_BYTES behavior = Inr v"
    by (simp add: roundTrip_def serialize_def deserialize_tags contentType_distinct)
next
  assume "toJson js v = Inr j \<and> fromJson js j = Inr v"
  then show "roundTrip js v ContentType_JSON behavior = Inr v"
    by (simp add: roundTrip_def serialize_def deserialize_tags asChars_asBytes
        contentType_distinct)
next
  assume a: "serializerWrite js 15 False v = Inr bs \<and> readValue js bs = Inr v"
  then show "roundTrip js v ContentType_V8 behavior = Inr v"
    by (simp add: roundTrip_def serialize_def serializeV8_def deserialize_tags
        contentType_distinct)
  from a show "(case serializeV8 js v of Inl e \<Rightarrow> Inl e
      | Inr s \<Rightarrow> deserialize js (data s) None) = Inr v"
    by (simp add: serializeV8_def deserialize_tags)
qed


lemma parseNat_42: "parseNat ''42'' = 42"
  by (simp add: parseNat_def digitValue_def)

lemma str_nat_42: "str_nat 42 = ''42''"
  by (simp add: str_nat.simps digitChar_def)

theorem serialize_deserialize_roundtrip_witness:
  "roundTrip testHost (JsString ''hello'') ContentType_TEXT DEEP_COPY = Inr (JsString ''hello'')
   \<and> roundTrip testHost (JsBytes [1, 2, 3] True) ContentType_BYTES DEEP_COPY
       = Inr (JsBytes [1, 2, 3] True)
   \<and> roundTrip testHost (JsNumber 42) ContentType_JSON SHALLOW_REFERENCE = Inr (JsNumber 42)
   \<and> roundTrip testHost (JsNumber 42) ContentType_V8 SHALLOW_REFERENCE = Inr (JsNumber 42)"
proof -
  have t: "isString testHost (JsString ''hello'')
      \<and> str testHost (toString testHost (JsString ''hello'')) = JsString ''hello''"
    by (simp add: testHost_def)
  have b: "isArrayBufferView testHost (JsBytes [1, 2, 3] True)
      \<and> bytes testHost (bufferSource testHost (JsBytes [1, 2, 3] True)) = JsBytes [1, 2, 3] True"
    by (simp add: testHost_def)
  have j: "toJson testHost (JsNumber 42) = Inr ''42''
      \<and> fromJson testHost ''42'' = Inr (JsNumber 42)"
    by (simp add: testHost_def str_nat_42 parseNat_42)
  have s: "serializerWrite testHost 15 False (JsNumber 42) = Inr [255, 15, 73, 52, 50]
      \<and> readValue testHost [255, 15, 73, 52, 50] = Inr (JsNumber 42)"
    by (simp add: testHost_def str_nat_42 asBytes_def asChars_def parseNat_def digitValue_def)
  show ?thesis
    using t b j s
      serialize_deserialize_roundtrip [of testHost "JsString ''hello''" DEEP_COPY
        "''42''" "[255, 15, 73, 52, 50]"]
      serialize_deserialize_roundtrip [of testHost "JsBytes [1, 2, 3] True" DEEP_COPY
        "''42''" "[255, 15, 73, 52, 50]"]
      serialize_deserialize_roundtrip [of testHost "JsNumber 42" SHALLOW_REFERENCE
        "''42''" "[255, 15, 73, 52, 50]"]
    by simp
qed

section \<open>Sending one message\<close>

lemma validateContentType_Inr:
  "validateContentType t = Inr v \<Longrightarrow>
     v = toLower t \<and> v \<in> {ContentType_TEXT, ContentType_BYTES, ContentType_JSON, ContentType_V8}"
  by (auto simp: validateContentType_def Let_def split: if_splits)

lemma validateContentType_lower:
  "toLower t \<in> {ContentType_TEXT, ContentType_BYTES, ContentType_JSON, ContentType_V8} \<Longrightarrow>
     validateContentType t = Inr (toLower t)"
  by (auto simp: validateContentType_def Let_def)

lemma str_cint_5: "str_cint 5 = ''5''"
  by (simp add: str_cint_def str_int_def str_nat.simps digitChar_def)

lemma send_chosen:
  assumes "\<not> isUndefined js body" and "validateContentType t = Inr v"
    and "sendContentType opts = Some t"
  shows "send js flags body (Some opts) =
     (case serialize js body v DEEP_COPY of
        Inl e \<Rightarrow> Inl e
      | Inr item \<Rightarrow>
          Inr \<lparr>httpMethod = ''POST'', url = ''https://fake-host/message'',
               headers = \<lparr>contentTypeHeader = Some MimeType_OCTET_STREAM,
                          added = (HDR_MSG_FORMAT, v) #
                            (case sendDelaySeconds opts of
                               None \<Rightarrow> []
                             | Some secs \<Rightarrow> [(HDR_MSG_DELAY, str_cint secs)])\<rparr>,
               expectedBodySize = length (data item), requestBody = data item\<rparr>)"
  using assms
  by (simp add: send_def addHeader_def setContentType_def emptyHeaders_def
      split: option.splits sum.splits)

lemma send_Inr_chosen:
  assumes "send js flags body (Some opts) = Inr req" and "sendContentType opts = Some t"
  shows "\<not> isUndefined js body \<and> validateContentType t = Inr (toLower t)"
  using assms validateContentType_Inr [of t]
  by (auto simp: send_def split: if_splits sum.splits)

lemma hello_bytes: "asBytes ''hello'' = [104, 101, 108, 108, 111]"
  by (simp add: asBytes_def)

lemma toLower_TEXT: "toLower ''TEXT'' = ''text''"
  by code_simp

text \<open>
  Claim C9. A \<open>send\<close> that goes out with a content type chosen by the caller carries the
  header \<open>X-Msg-Fmt\<close> with the validated, lower-cased tag, first among the added headers,
  and after it, when a delay was given, \<open>X-Msg-Delay-Secs\<close> with the delay in decimal; for
  the tag \<open>text\<close> the body is a string and the request body is the bytes of that string.
  In particular a string \<open>hello\<close> sent with content type \<open>TEXT\<close> and a delay of 5 goes out
  with \<open>X-Msg-Fmt: text\<close>, \<open>X-Msg-Delay-Secs: 5\<close> and the five bytes of \<open>hello\<close>.
\<close>

theorem send_chosen_type_and_delay:
  assumes "send js flags body (Some opts) = Inr req"
    and "sendContentType opts = Some t"
  shows "validateContentType t = Inr (toLower t)
    \<and> contentTypeHeader (headers req) = Some ''application/octet-stream''
    \<and> added (headers req) =
        (''X-Msg-Fmt'', toLower t) #
        (case sendDelaySeconds opts of
           None \<Rightarrow> []
         | Some secs \<Rightarrow> [(''X-Msg-Delay-Secs'', str_cint secs)])
    \<and> (toLower t = ''text'' \<longrightarrow>
          isString js body \<and> requestBody req = asBytes (toString js body))
    \<and> (\<not> isUndefined js v \<and> isString js v \<and> toString js v = ''hello'' \<longrightarrow>
          send js flags v (Some \<lparr>sendContentType = Some ''TEXT'', sendDelaySeconds = Some 5\<rparr>) =
            Inr \<lparr>httpMethod = ''POST'', url = ''https://fake-host/message'',
                 headers = \<lparr>contentTypeHeader = Some ''application/octet-stream'',
                            added = [(''X-Msg-Fmt'', ''text''), (''X-Msg-Delay-Secs'', ''5'')]\<rparr>,
                 expectedBodySize = 5, requestBody = [104, 101, 108, 108, 111]\<rparr>)"
proof -
  from send_Inr_chosen [OF assms]
  have u: "\<not> isUndefined js body" and val: "validateContentType t = Inr (toLower t)"
    by simp_all
  note eq = send_chosen [OF u val assms(2), of flags]
  from assms(1) eq obtain item where
    ser: "serialize js body (toLower t) DEEP_COPY = Inr item"
    by (cases "serialize js body (toLower t) DEEP_COPY") simp_all
  from assms(1) eq ser have req:
    "req = \<lparr>httpMethod = ''POST'', url = ''https://fake-host/message'',
            headers = \<lparr>contentTypeHeader = Some MimeType_OCTET_STREAM,
                       added = (HDR_MSG_FORMAT, toLower t) #
                         (case sendDelaySeconds opts of
                            None \<Rightarrow> []
                          | Some secs \<Rightarrow> [(HDR_MSG_DELAY, str_cint secs)])\<rparr>,
            expectedBodySize = length (data item), requestBody = data item\<rparr>"
    by simp
  have hdr: "contentTypeHeader (headers req) = Some ''application/octet-stream''"
    "added (headers req) =
        (''X-Msg-Fmt'', toLower t) #
        (case sendDelaySeconds opts of
           None \<Rightarrow> []
         | Some secs \<Rightarrow> [(''X-Msg-Delay-Secs'', str_cint secs)])"
    by (simp_all add: req MimeType_OCTET_STREAM_def HDR_MSG_FORMAT_def HDR_MSG_DELAY_def
        split: option.splits)
  have tx: "toLower t = ''text'' \<longrightarrow>
      isString js body \<and> requestBody req = asBytes (toString js body)"
    using ser by (auto simp: req serialize_def ContentType_TEXT_def split: if_splits)
  have hello: "\<not> isUndefined js v \<and> isString js v \<and> toString js v = ''hello'' \<longrightarrow>
      send js flags v (Some \<lparr>sendContentType = Some ''TEXT'', sendDelaySeconds = Some 5\<rparr>) =
        Inr \<lparr>httpMethod = ''POST'', url = ''https://fake-host/message'',
             headers = \<lparr>contentTypeHeader = Some ''application/octet-stream'',
                        added = [(''X-Msg-Fmt'', ''text''), (''X-Msg-Delay-Secs'', ''5'')]\<rparr>,
             expectedBodySize = 5, requestBody = [104, 101, 108, 108, 111]\<rparr>"
  proof (intro impI, elim conjE)
    assume v: "\<not> isUndefined js v" "isString js v" "toString js v = ''hello''"
    have vt: "validateContentType ''TEXT'' = Inr ''text''"
      using validateContentType_lower [of "''TEXT''"]
      by (simp add: toLower_TEXT ContentType_TEXT_def)
    have s: "serialize js v ''text'' DEEP_COPY = Inr \<lparr>own = Some OwnString, data = asBytes ''hello''\<rparr>"
      using v by (simp add: serialize_def ContentType_TEXT_def)
    show "send js flags v (Some \<lparr>sendContentType = Some ''TEXT'', sendDelaySeconds = Some 5\<rparr>) =
        Inr \<lparr>httpMethod = ''POST'', url = ''https://fake-host/message'',
             headers = \<lparr>contentTypeHeader = Some ''application/octet-stream'',
                        added = [(''X-Msg-Fmt'', ''text''), (''X-Msg-Delay-Secs'', ''5'')]\<rparr>,
             expectedBodySize = 5, requestBody = [104, 101, 108, 108, 111]\<rparr>"
      by (simp add: send_chosen [OF v(1) vt] s hello_bytes str_cint_5
          MimeType_OCTET_STREAM_def HDR_MSG_FORMAT_def HDR_MSG_DELAY_def)
  qed
  show ?thesis using val hdr tx hello by simp
qed

lemma testHost_simps:
  "isUndefined testHost v = (v = JsUndefined)"
  "isString testHost (JsString s)"
  "toString testHost (JsString s) = s"
  by (simp_all add: testHost_def)

theorem send_chosen_type_and_delay_witness:
  "send testHost testFlags (JsString ''hello'')
      (Some \<lparr>sendContentType = Some ''TEXT'', sendDelaySeconds = Some 5\<rparr>) =
     Inr \<lparr>httpMethod = ''POST'', url = ''https://fake-host/message'',
          headers = \<lparr>contentTypeHeader = Some ''application/octet-stream'',
                     added = [(''X-Msg-Fmt'', ''text''), (''X-Msg-Delay-Secs'', ''5'')]\<rparr>,
          expectedBodySize = 5, requestBody = [104, 101, 108, 108, 111]\<rparr>
   \<and> validateContentType ''TEXT'' = Inr ''text''
   \<and> isString testHost (JsString ''hello'')
   \<and> [104, 101, 108, 108, 111] = asBytes (toString testHost (JsString ''hello''))"
proof -
  have v: "\<not> isUndefined testHost (JsString ''hello'') \<and> isString testHost (JsString ''hello'')
      \<and> toString testHost (JsString ''hello'') = ''hello''"
    by (simp add: testHost_simps)
  have s: "send testHost testFlags (JsString ''hello'')
      (Some \<lparr>sendContentType = Some ''TEXT'', sendDelaySeconds = Some 5\<rparr>) =
     Inr \<lparr>httpMethod = ''POST'', url = ''https://fake-host/message'',
          headers = \<lparr>contentTypeHeader = Some ''application/octet-stream'',
                     added = [(''X-Msg-Fmt'', ''text''), (''X-Msg-Delay-Secs'', ''5'')]\<rparr>,
          expectedBodySize = 5, requestBody = [104, 101, 108, 108, 111]\<rparr>"
    by (simp add: send_def testHost_simps validateContentType_def toLower_TEXT
        ContentType_TEXT_def serialize_def hello_bytes str_cint_5 addHeader_def
        setContentType_def emptyHeaders_def MimeType_OCTET_STREAM_def HDR_MSG_FORMAT_def
        HDR_MSG_DELAY_def)
  show ?thesis
    using v s send_chosen_type_and_delay [OF s, of "''TEXT''" "JsString ''hello''"]
    by (simp add: toLower_TEXT)
qed

section \<open>Sending a batch\<close>

lemma size_t_add_left [simp]: "size_t (size_t a + b) = size_t (a + b)"
  by (simp add: size_t_def mod_add_left_eq)

lemma size_t_id: "n < 2 ^ 64 \<Longrightarrow> size_t n = n"
  by (simp add: size_t_def)

lemma size_t_less: "size_t n < 2 ^ 64"
  by (simp add: size_t_def)

lemma serializeLoop_acc:
  "serializeLoop js flags batch (builder, totalSize, largestMessage) = Inr (items, totalSize', largestMessage')
   \<Longrightarrow> totalSize < 2 ^ 64
   \<Longrightarrow> \<exists>new. items = builder @ new
        \<and> list_all2 (\<lambda>m item. serializeMessage js flags m = Inr item) batch new
        \<and> totalSize' = size_t (totalSize + sum_list (map payloadSize new))
        \<and> largestMessage' = foldl max largestMessage (map payloadSize new)"
proof (induction batch arbitrary: builder totalSize largestMessage)
  case Nil
  then show ?case by (simp add: size_t_id)
next
  case (Cons m batch)
  from Cons.prems(1) obtain item where
    item: "serializeMessage js flags m = Inr item"
    by (cases "serializeMessage js flags m") simp_all
  with Cons.prems(1) have
    "serializeLoop js flags batch
       (builder @ [item], size_t (totalSize + payloadSize item), max largestMessage (payloadSize item))
     = Inr (items, totalSize', largestMessage')"
    by (simp add: payloadSize_def)
  from Cons.IH [OF this size_t_less] obtain new where
    new: "items = (builder @ [item]) @ new"
      "list_all2 (\<lambda>m item. serializeMessage js flags m = Inr item) batch new"
      "totalSize' = size_t (size_t (totalSize + payloadSize item) + sum_list (map payloadSize new))"
      "largestMessage' = foldl max (max largestMessage (payloadSize item)) (map payloadSize new)"
    by blast
  show ?case
  proof (intro exI conjI)
    show "items = builder @ (item # new)" using new(1) by simp
    show "list_all2 (\<lambda>m item. serializeMessage js flags m = Inr item) (m # batch) (item # new)"
      using item new(2) by simp
    show "totalSize' = size_t (totalSize + sum_list (map payloadSize (item # new)))"
      using new(3) by (simp add: add.assoc)
    show "largestMessage' = foldl max largestMessage (map payloadSize (item # new))"
      using new(4) by simp
  qed
qed

lemma foldl_max_Max:
  "foldl max (a::nat) xs = Max (set (a # xs))"
proof (induction xs arbitrary: a)
  case Nil
  show ?case by simp
next
  case (Cons x xs)
  have "foldl max a (x # xs) = Max (set (max a x # xs))"
    by (simp add: Cons.IH)
  also have "\<dots> = Max (set (a # x # xs))"
    by (cases "xs = []") (simp_all add: max.assoc)
  finally show ?case .
qed

lemma foldl_max_0:
  "xs \<noteq> [] \<Longrightarrow> foldl max (0::nat) xs = Max (set xs)"
  by (simp add: foldl_max_Max)

lemma list_all2_payloads:
  "list_all2 (\<lambda>m item. serializeMessage js flags m = Inr item) batch items \<Longrightarrow>
   payloads js flags batch = map (\<lambda>item. data (itemBody item)) items"
  unfolding payloads_def
  by (induction batch items rule: list_all2_induct) simp_all

lemma serializeLoop_items:
  assumes "serializeLoop js flags batch ([], 0, 0) = Inr (items, totalSize, largestMessage)"
  shows "list_all2 (\<lambda>m item. serializeMessage js flags m = Inr item) batch items"
    and "map payloadSize items = payloadSizes js flags batch"
    and "totalSize = size_t (sum_list (payloadSizes js flags batch))"
    and "batch \<noteq> [] \<Longrightarrow> largestMessage = Max (set (payloadSizes js flags batch))"
proof -
  from serializeLoop_acc [OF assms] obtain new where
    new: "items = new"
      "list_all2 (\<lambda>m item. serializeMessage js flags m = Inr item) batch new"
      "totalSize = size_t (sum_list (map payloadSize new))"
      "largestMessage = foldl max 0 (map payloadSize new)"
    by auto
  show a: "list_all2 (\<lambda>m item. serializeMessage js flags m = Inr item) batch items"
    using new by simp
  show b: "map payloadSize items = payloadSizes js flags batch"
    by (simp add: payloadSizes_def list_all2_payloads [OF a] payloadSize_def)
  show "totalSize = size_t (sum_list (payloadSizes js flags batch))"
    using new b by simp
  show "largestMessage = Max (set (payloadSizes js flags batch))" if "batch \<noteq> []"
  proof -
    from that a have "items \<noteq> []" by (auto simp: list_all2_Cons1 neq_Nil_conv)
    then have ne: "map payloadSize items \<noteq> []" by simp
    have "largestMessage = foldl max 0 (map payloadSize items)"
      using new(1,4) by simp
    also have "\<dots> = Max (set (map payloadSize items))"
      by (rule foldl_max_0 [OF ne])
    also have "\<dots> = Max (set (payloadSizes js flags batch))"
      by (simp only: b)
    finally show ?thesis .
  qed
qed

lemma serializeLoop_succeeds:
  "list_all (\<lambda>m. \<not> isl (serializeMessage js flags m)) batch \<Longrightarrow>
   \<exists>r. serializeLoop js flags batch acc = Inr r"
proof (induction batch arbitrary: acc)
  case Nil
  show ?case by (cases acc) simp
next
  case (Cons m batch)
  obtain builder totalSize largestMessage where acc: "acc = (builder, totalSize, largestMessage)"
    by (cases acc) auto
  from Cons.prems obtain item where "serializeMessage js flags m = Inr item"
    by (cases "serializeMessage js flags m") simp_all
  moreover from Cons.prems have "list_all (\<lambda>m. \<not> isl (serializeMessage js flags m)) batch"
    by simp
  ultimately show ?case
    using Cons.IH by (simp add: acc)
qed

lemma sendBatchBody_succeeds:
  assumes "batch \<noteq> []" and "list_all (\<lambda>m. \<not> isl (serializeMessage js flags m)) batch"
  shows "\<exists>r. sendBatchBody js flags batch = Inr r"
proof -
  from serializeLoop_succeeds [OF assms(2), of "([], 0, 0)"] obtain r where
    "serializeLoop js flags batch ([], 0, 0) = Inr r" by blast
  with assms(1) show ?thesis
    by (cases r) (simp add: sendBatchBody_def Let_def)
qed

lemma sendBatch_succeeds:
  assumes "batch \<noteq> []" and "list_all (\<lambda>m. \<not> isl (serializeMessage js flags m)) batch"
  shows "\<not> isl (sendBatch js flags batch options)"
proof -
  from sendBatchBody_succeeds [OF assms] obtain r where
    "sendBatchBody js flags batch = Inr r" by blast
  then show ?thesis
    by (cases r) (simp add: sendBatch_def Let_def)
qed

lemma sendBatchBody_Inr:
  assumes "sendBatchBody js flags batch = Inr (bodyBuilder, estimated, totalSize, largestMessage)"
  shows "batch \<noteq> [] \<and> (\<exists>items.
      serializeLoop js flags batch ([], 0, 0) = Inr (items, totalSize, largestMessage)
      \<and> bodyBuilder = buildBody items (length batch)
      \<and> estimated = estimatedSize totalSize (length batch))"
  using assms
  by (auto simp: sendBatchBody_def Let_def split: if_splits sum.splits)

lemma sendBatch_Inr:
  assumes "sendBatch js flags batch options = Inr req"
  shows "\<exists>bodyBuilder estimated totalSize largestMessage.
      sendBatchBody js flags batch = Inr (bodyBuilder, estimated, totalSize, largestMessage)
      \<and> contentTypeHeader (headers req) = Some MimeType_JSON
      \<and> added (headers req) =
          [(''CF-Queue-Batch-Count'', str_nat (length batch)),
           (''CF-Queue-Batch-Bytes'', str_nat totalSize),
           (''CF-Queue-Largest-Msg'', str_nat largestMessage)] @
          (case options of
             None \<Rightarrow> []
           | Some opts \<Rightarrow>
               (case batchOptDelaySeconds opts of
                  None \<Rightarrow> []
                | Some secs \<Rightarrow> [(HDR_MSG_DELAY, str_cint secs)]))
      \<and> requestBody req = asBytes (butlast bodyBuilder)
      \<and> expectedBodySize req = length (butlast bodyBuilder)
      \<and> httpMethod req = ''POST'' \<and> url req = ''https://fake-host/batch''"
proof (cases "sendBatchBody js flags batch")
  case (Inl e)
  with assms show ?thesis by (simp add: sendBatch_def)
next
  case (Inr r)
  obtain bodyBuilder estimated totalSize largestMessage where
    r: "r = (bodyBuilder, estimated, totalSize, largestMessage)"
    by (cases r) auto
  from assms have req: "req = projr (sendBatch js flags batch options)" by simp
  show ?thesis
    unfolding req
    by (simp add: sendBatch_def Inr r Let_def addHeader_def setContentType_def emptyHeaders_def
        split: option.splits)
qed

lemma serializeMessage_Inr_all:
  "list_all2 (\<lambda>m item. serializeMessage js flags m = Inr item) batch items \<Longrightarrow>
   list_all (\<lambda>m. \<not> isl (serializeMessage js flags m)) batch"
  by (induction batch items rule: list_all2_induct) simp_all

text \<open>
  Claim C5. \<open>sendBatch\<close> of no message fails with the type error
  \<open>sendBatch() requires at least one message\<close>. A batch that \<open>sendBatch\<close> sends has at
  least one message, each of them serialized, and its request carries first the headers
  \<open>CF-Queue-Batch-Count\<close> with the number of messages, \<open>CF-Queue-Batch-Bytes\<close> with the sum
  of the sizes of the serialized payloads and \<open>CF-Queue-Largest-Msg\<close> with the largest of
  these sizes, in decimal. The sum is the one \<^verbatim>\<open>size_t\<close> holds: the sizes add up to less
  than \<open>2^64\<close>.
\<close>

theorem sendBatch_metadata:
  "sendBatch js flags [] options = Inl (TypeError ''sendBatch() requires at least one message'')
   \<and> (sendBatch js flags batch options = Inr req
        \<and> sum_list (payloadSizes js flags batch) < 2 ^ 64 \<longrightarrow>
      1 \<le> length batch
      \<and> list_all (\<lambda>m. \<not> isl (serializeMessage js flags m)) batch
      \<and> take 3 (added (headers req)) =
          [(''CF-Queue-Batch-Count'', str_nat (length batch)),
           (''CF-Queue-Batch-Bytes'', str_nat (sum_list (payloadSizes js flags batch))),
           (''CF-Queue-Largest-Msg'', str_nat (Max (set (payloadSizes js flags batch))))])"
proof (intro conjI impI)
  show "sendBatch js flags [] options = Inl (TypeError ''sendBatch() requires at least one message'')"
    by (simp add: sendBatch_def sendBatchBody_def)
next
  assume a: "sendBatch js flags batch options = Inr req
      \<and> sum_list (payloadSizes js flags batch) < 2 ^ 64"
  from sendBatch_Inr [of js flags batch options req] a obtain bodyBuilder estimated totalSize largestMessage where
    b: "sendBatchBody js flags batch = Inr (bodyBuilder, estimated, totalSize, largestMessage)"
    and h: "take 3 (added (headers req)) =
          [(''CF-Queue-Batch-Count'', str_nat (length batch)),
           (''CF-Queue-Batch-Bytes'', str_nat totalSize),
           (''CF-Queue-Largest-Msg'', str_nat largestMessage)]"
    by auto
  from sendBatchBody_Inr [OF b] obtain items where
    ne: "batch \<noteq> []"
    and loop: "serializeLoop js flags batch ([], 0, 0) = Inr (items, totalSize, largestMessage)"
    by blast
  from ne show "1 \<le> length batch" by (cases batch) simp_all
  show "list_all (\<lambda>m. \<not> isl (serializeMessage js flags m)) batch"
    by (rule serializeMessage_Inr_all [OF serializeLoop_items(1) [OF loop]])
  have "totalSize = sum_list (payloadSizes js flags batch)"
    using serializeLoop_items(3) [OF loop] a by (simp add: size_t_id)
  moreover have "largestMessage = Max (set (payloadSizes js flags batch))"
    by (rule serializeLoop_items(4) [OF loop ne])
  ultimately show "take 3 (added (headers req)) =
          [(''CF-Queue-Batch-Count'', str_nat (length batch)),
           (''CF-Queue-Batch-Bytes'', str_nat (sum_list (payloadSizes js flags batch))),
           (''CF-Queue-Largest-Msg'', str_nat (Max (set (payloadSizes js flags batch))))]"
    using h by simp
qed

lemma serializeMessage_testBatch:
  "serializeMessage testHost testFlags
     \<lparr>messageBody = JsString ''hello'', messageContentType = Some ''text'',
      messageDelaySeconds = Some 5\<rparr> =
   Inr \<lparr>itemBody = \<lparr>own = Some OwnString, data = [104, 101, 108, 108, 111]\<rparr>,
        itemContentType = Some ''text'', itemDelaySeconds = Some 5\<rparr>"
  "serializeMessage testHost testFlags
     \<lparr>messageBody = JsBytes [1, 2, 3] False, messageContentType = Some ''bytes'',
      messageDelaySeconds = None\<rparr> =
   Inr \<lparr>itemBody = \<lparr>own = Some OwnBufferSource, data = [1, 2, 3]\<rparr>,
        itemContentType = Some ''bytes'', itemDelaySeconds = None\<rparr>"
  by (simp_all add: serializeMessage_def testHost_def validateContentType_def toLower_def
      toLowerChar_def ContentType_TEXT_def ContentType_BYTES_def serialize_def asBytes_def)

lemma payloadSizes_testBatch: "payloadSizes testHost testFlags testBatch = [5, 3]"
  by (simp add: payloadSizes_def payloads_def testBatch_def serializeMessage_testBatch)

lemma sendBatch_testBatch_succeeds: "\<not> isl (sendBatch testHost testFlags testBatch None)"
  by (rule sendBatch_succeeds) (simp_all add: testBatch_def serializeMessage_testBatch)

theorem sendBatch_metadata_witness:
  "sendBatch testHost testFlags testBatch None = Inr (projr (sendBatch testHost testFlags testBatch None))
   \<and> sum_list (payloadSizes testHost testFlags testBatch) < 2 ^ 64
   \<and> length testBatch = 2
   \<and> take 3 (added (headers (projr (sendBatch testHost testFlags testBatch None)))) =
       [(''CF-Queue-Batch-Count'', ''2''), (''CF-Queue-Batch-Bytes'', ''8''),
        (''CF-Queue-Largest-Msg'', ''5'')]"
proof -
  have ok: "sendBatch testHost testFlags testBatch None =
      Inr (projr (sendBatch testHost testFlags testBatch None))"
    using sendBatch_testBatch_succeeds by (cases "sendBatch testHost testFlags testBatch None") simp_all
  have sz: "sum_list (payloadSizes testHost testFlags testBatch) < 2 ^ 64"
    by (simp add: payloadSizes_testBatch)
  have n: "length testBatch = 2" by (simp add: testBatch_def)
  have s: "str_nat 2 = ''2''" "str_nat 8 = ''8''" "str_nat 5 = ''5''"
    by (simp_all add: str_nat.simps digitChar_def)
  show ?thesis
    using ok sz n
      sendBatch_metadata [of testHost testFlags None testBatch
        "projr (sendBatch testHost testFlags testBatch None)"]
    by (simp add: payloadSizes_testBatch s)
qed

section \<open>The size of the batch body\<close>

lemma length_encodeBase64: "length (encodeBase64 bs) = (length bs + 2) div 3 * 4"
proof (induction bs rule: encodeBase64.induct)
  case (4 a b c bs)
  have "(length (a # b # c # bs) + 2) div 3 = Suc ((length bs + 2) div 3)"
    by simp
  with 4 show ?case by simp
qed simp_all

lemma length_str_nat: "0 < k \<Longrightarrow> n < 10 ^ k \<Longrightarrow> length (str_nat n) \<le> k"
proof (induction k arbitrary: n)
  case 0
  then show ?case by simp
next
  case (Suc k)
  show ?case
  proof (cases "n < 10")
    case True
    then show ?thesis by (simp add: str_nat.simps)
  next
    case False
    with Suc.prems have k: "0 < k" by (cases k) simp_all
    from Suc.prems have "n div 10 < 10 ^ k" by (simp add: less_mult_imp_div_less mult.commute)
    from Suc.IH [OF k this] False show ?thesis
      by (subst str_nat.simps) simp
  qed
qed

lemma length_str_cint: "length (str_cint secs) \<le> 11"
proof -
  have lo: "- (2 ^ 31) \<le> sint secs" and hi: "sint secs < 2 ^ 31"
    using sint_ge [of secs] sint_lt [of secs] by simp_all
  show ?thesis
  proof (cases "sint secs < 0")
    case True
    with lo have "nat (- sint secs) < 10 ^ 10" by simp
    from length_str_nat [OF _ this] True show ?thesis
      by (simp add: str_cint_def str_int_def)
  next
    case False
    with hi have "nat (sint secs) < 10 ^ 10" by simp
    from length_str_nat [OF _ this] False show ?thesis
      by (simp add: str_cint_def str_int_def)
  qed
qed

lemma appendMessage_eq:
  "appendMessage items n acc i =
     acc @ messageJson (items ! i) @ (if i < n - 1 then '','' else [])"
  by (simp add: appendMessage_def messageJson_def Let_def split: option.splits)

lemma foldl_appendMessage:
  "foldl (appendMessage items n) acc [0..<k] =
     acc @ concat (map (\<lambda>i. messageJson (items ! i) @ (if i < n - 1 then '','' else [])) [0..<k])"
  by (induction k) (simp_all add: appendMessage_eq)

lemma concat_joinWith:
  "concat (map (\<lambda>i. f (xs ! i) @ (if i < length xs - 1 then sep else [])) [0..<length xs])
     = joinWith sep (map f xs)"
proof (induction xs)
  case Nil
  show ?case by simp
next
  case (Cons x xs)
  have "concat (map (\<lambda>i. f ((x # xs) ! i) @ (if i < length (x # xs) - 1 then sep else []))
          [0..<length (x # xs)])
      = (f x @ (if 0 < length xs then sep else []))
        @ concat (map (\<lambda>i. f (xs ! i) @ (if i < length xs - 1 then sep else [])) [0..<length xs])"
    by (simp add: upt_conv_Cons map_Suc_upt [symmetric] del: upt_Suc) (simp add: comp_def less_diff_conv)
  also have "\<dots> = (f x @ (if 0 < length xs then sep else [])) @ joinWith sep (map f xs)"
    by (simp only: Cons.IH)
  also have "\<dots> = joinWith sep (map f (x # xs))"
    by (cases xs) simp_all
  finally show ?case .
qed

lemma buildBody_eq:
  "buildBody items (length items) = batchJson items @ [CHR 0x00]"
  unfolding buildBody_def batchJson_def foldl_appendMessage concat_joinWith by simp

lemma serialize_contentType_length:
  assumes "serializeMessage js flags m = Inr item" and "itemContentType item = Some t"
  shows "t \<in> {ContentType_TEXT, ContentType_BYTES, ContentType_JSON, ContentType_V8}"
proof (cases "messageContentType m")
  case None
  with assms show ?thesis
    by (auto simp: serializeMessage_def Let_def split: if_splits sum.splits)
next
  case (Some c)
  with assms obtain v where "validateContentType c = Inr v" and "t = v"
    by (auto simp: serializeMessage_def Let_def split: if_splits sum.splits)
  with validateContentType_Inr [of c v] show ?thesis by blast
qed

lemma length_messageJson:
  assumes "\<And>t. itemContentType item = Some t \<Longrightarrow> length t \<le> 5"
  shows "length (messageJson item) \<le> (payloadSize item + 2) div 3 * 4 + 59"
proof -
  have c: "length (case itemContentType item of None \<Rightarrow> []
      | Some contentType \<Rightarrow> '',\"contentType\":\"'' @ contentType @ ''\"'') \<le> 22"
    using assms by (cases "itemContentType item") simp_all
  have d: "length (case itemDelaySeconds item of None \<Rightarrow> []
      | Some delaySecs \<Rightarrow> '',\"delaySecs\": '' @ str_cint delaySecs) \<le> 25"
    using length_str_cint by (cases "itemDelaySeconds item") simp_all
  show ?thesis
    using c d by (simp add: messageJson_def length_encodeBase64 payloadSize_def)
qed

lemma length_joinWith:
  "length (joinWith sep xs) = sum_list (map length xs) + length sep * (length xs - 1)"
  by (induction sep xs rule: joinWith.induct) simp_all

lemma sum_base64_sizes:
  "xs \<noteq> [] \<Longrightarrow>
   (\<Sum>x\<leftarrow>xs. (x + 2) div 3) + 1 \<le> (sum_list xs + 2) div 3 + length (xs :: nat list)"
proof (induction xs)
  case Nil
  then show ?case by simp
next
  case (Cons x xs)
  show ?case
  proof (cases "xs = []")
    case True
    then show ?thesis by simp
  next
    case False
    from Cons.IH [OF False]
    have "(\<Sum>x\<leftarrow>xs. (x + 2) div 3) + 1 \<le> (sum_list xs + 2) div 3 + length xs" .
    moreover have "(x + 2) div 3 + (sum_list xs + 2) div 3 \<le> (x + sum_list xs + 2) div 3 + 1"
      by arith
    ultimately show ?thesis by simp
  qed
qed

lemma sum_length_messageJson:
  assumes "\<And>item t. item \<in> set items \<Longrightarrow> itemContentType item = Some t \<Longrightarrow> length t \<le> 5"
  shows "sum_list (map (length \<circ> messageJson) items)
      \<le> (\<Sum>x\<leftarrow>map payloadSize items. (x + 2) div 3) * 4 + 59 * length items"
  using assms
proof (induction items)
  case Nil
  show ?case by simp
next
  case (Cons item items)
  have "length (messageJson item) \<le> (payloadSize item + 2) div 3 * 4 + 59"
    by (rule length_messageJson) (rule Cons.prems, simp_all)
  moreover have "sum_list (map (length \<circ> messageJson) items)
      \<le> (\<Sum>x\<leftarrow>map payloadSize items. (x + 2) div 3) * 4 + 59 * length items"
    by (rule Cons.IH) (rule Cons.prems, simp_all)
  ultimately show ?case by (simp add: comp_def)
qed

lemma length_batchJson:
  assumes "items \<noteq> []"
    and "\<And>item t. item \<in> set items \<Longrightarrow> itemContentType item = Some t \<Longrightarrow> length t \<le> 5"
  shows "length (batchJson items) + 1
      \<le> (sum_list (map payloadSize items) + 2) div 3 * 4 + length items * 64 + 11"
proof -
  have ne: "map payloadSize items \<noteq> []" using assms(1) by simp
  have a: "sum_list (map (length \<circ> messageJson) items)
      \<le> (\<Sum>x\<leftarrow>map payloadSize items. (x + 2) div 3) * 4 + 59 * length items"
    by (rule sum_length_messageJson) (rule assms(2))
  have b: "(\<Sum>x\<leftarrow>map payloadSize items. (x + 2) div 3) + 1
      \<le> (sum_list (map payloadSize items) + 2) div 3 + length items"
    using sum_base64_sizes [OF ne] by simp
  have n: "1 \<le> length items" using assms(1) by (cases items) simp_all
  have "length (batchJson items) = 15 + sum_list (map (length \<circ> messageJson) items) + (length items - 1)"
    by (simp add: batchJson_def length_joinWith comp_def)
  with a b n show ?thesis by arith
qed

lemma list_all2_set_right:
  "list_all2 P xs ys \<Longrightarrow> y \<in> set ys \<Longrightarrow> \<exists>x \<in> set xs. P x y"
  by (induction xs ys rule: list_all2_induct) auto

lemma contentType_lengths:
  "t \<in> {ContentType_TEXT, ContentType_BYTES, ContentType_JSON, ContentType_V8} \<Longrightarrow> length t \<le> 5"
  by (auto simp: ContentType_TEXT_def ContentType_BYTES_def ContentType_JSON_def ContentType_V8_def)

lemma estimatedSize_exact:
  assumes "(tot + 2) div 3 * 4 + n * 64 + 32 < 2 ^ 64"
  shows "estimatedSize (size_t tot) n = (tot + 2) div 3 * 4 + n * 64 + 32"
proof -
  have t: "tot < 2 ^ 64" using assms by arith
  have a: "tot + 2 < 2 ^ 64" using assms by arith
  have b: "(tot + 2) div 3 * 4 < 2 ^ 64" using assms by arith
  have c: "n * 64 < 2 ^ 64" using assms by arith
  have d: "(tot + 2) div 3 * 4 + n * 64 < 2 ^ 64" using assms by arith
  show ?thesis
    unfolding estimatedSize_def
    by (simp only: size_t_id [OF t] size_t_id [OF a] size_t_id [OF b] size_t_id [OF c]
        size_t_id [OF d] size_t_id [OF assms])
qed

text \<open>
  Claim C10. When \<open>sendBatch\<close> reaches the assertion on the size of \<open>bodyBuilder\<close>, the
  builder, with its terminating NUL, is no longer than \<open>estimatedSize\<close>, which is
  \<open>(totalSize + 2) / 3 * 4 + messageCount * 64 + 32\<close> over the sum of the payload sizes. This
  holds for every batch, every payload, content type and delay, as long as the estimate
  itself fits a \<^verbatim>\<open>size_t\<close>, which is so for every batch that fits in memory.
\<close>

theorem bodyBuilder_within_estimate:
  assumes "sendBatchBody js flags batch = Inr (bodyBuilder, estimated, totalSize, largestMessage)"
    and "(sum_list (payloadSizes js flags batch) + 2) div 3 * 4 + length batch * 64 + 32 < 2 ^ 64"
  shows "length bodyBuilder \<le> estimated
    \<and> estimated = (sum_list (payloadSizes js flags batch) + 2) div 3 * 4 + length batch * 64 + 32
    \<and> last bodyBuilder = CHR 0x00"
proof -
  from sendBatchBody_Inr [OF assms(1)] obtain items where
    ne: "batch \<noteq> []"
    and loop: "serializeLoop js flags batch ([], 0, 0) = Inr (items, totalSize, largestMessage)"
    and bb: "bodyBuilder = buildBody items (length batch)"
    and est: "estimated = estimatedSize totalSize (length batch)"
    by blast
  note all2 = serializeLoop_items(1) [OF loop]
  note sizes = serializeLoop_items(2) [OF loop]
  note total = serializeLoop_items(3) [OF loop]
  have len: "length items = length batch"
    using all2 by (simp add: list_all2_lengthD)
  with ne have ine: "items \<noteq> []" by auto
  have ct: "length t \<le> 5" if "item \<in> set items" and "itemContentType item = Some t" for item t
  proof -
    from list_all2_set_right [OF all2 that(1)] obtain m where
      "serializeMessage js flags m = Inr item" by blast
    from serialize_contentType_length [OF this that(2)] show ?thesis
      by (rule contentType_lengths)
  qed
  have body: "bodyBuilder = batchJson items @ [CHR 0x00]"
    using bb len buildBody_eq [of items] by simp
  have e: "estimated = (sum_list (payloadSizes js flags batch) + 2) div 3 * 4 + length batch * 64 + 32"
    unfolding est total by (rule estimatedSize_exact [OF assms(2)])
  have "length (batchJson items) + 1
      \<le> (sum_list (map payloadSize items) + 2) div 3 * 4 + length items * 64 + 11"
    by (rule length_batchJson [OF ine ct])
  then have "length bodyBuilder \<le> estimated"
    unfolding e body sizes len by simp
  then show ?thesis using e body by simp
qed

lemma batchJson_testItems: "batchJson testItems = testBody"
  by (simp add: batchJson_def messageJson_def testItems_def testBody_def base64Char_def
      base64Chars_def str_cint_5)

lemma buildBody_testItems: "buildBody testItems 2 = testBody @ [CHR 0x00]"
proof -
  have "length testItems = 2" by (simp add: testItems_def)
  then have "buildBody testItems 2 = buildBody testItems (length testItems)"
    by (simp only:)
  then show ?thesis by (simp only: buildBody_eq batchJson_testItems)
qed

lemma serializeLoop_testBatch:
  "serializeLoop testHost testFlags testBatch ([], 0, 0) = Inr (testItems, 8, 5)"
  by (simp add: testBatch_def testItems_def serializeMessage_testBatch size_t_def)

lemma sendBatchBody_testBatch:
  "sendBatchBody testHost testFlags testBatch = Inr (testBody @ [CHR 0x00], 172, 8, 5)"
proof -
  have n: "length testBatch = 2" by (simp add: testBatch_def)
  have e: "estimatedSize 8 2 = 172" by (simp add: estimatedSize_def size_t_def)
  show ?thesis
    unfolding sendBatchBody_def n Let_def serializeLoop_testBatch
    by (simp add: buildBody_testItems e)
qed

theorem bodyBuilder_within_estimate_witness:
  "sendBatchBody testHost testFlags testBatch = Inr (testBody @ [CHR 0x00], 172, 8, 5)
   \<and> (sum_list (payloadSizes testHost testFlags testBatch) + 2) div 3 * 4 + length testBatch * 64 + 32
       < (2 :: nat) ^ 64
   \<and> length (testBody @ [CHR 0x00]) \<le> (172 :: nat)
   \<and> (sum_list (payloadSizes testHost testFlags testBatch) + 2) div 3 * 4 + length testBatch * 64 + 32
       = (172 :: nat)"
proof -
  have n: "length testBatch = 2" by (simp add: testBatch_def)
  have h: "(sum_list (payloadSizes testHost testFlags testBatch) + 2) div 3 * 4
      + length testBatch * 64 + 32 < (2 :: nat) ^ 64"
    by (simp add: payloadSizes_testBatch n)
  show ?thesis
    using h sendBatchBody_testBatch
      bodyBuilder_within_estimate [OF sendBatchBody_testBatch h]
    by simp
qed

section \<open>The wire body of a batch\<close>

lemma skipWs_Cons: "\<not> isWs c \<Longrightarrow> skipWs (c # s) = c # s"
  by (simp add: skipWs_def)

lemma skipWs_space: "skipWs (CHR '' '' # s) = skipWs s"
  by (simp add: skipWs_def isWs_def)

lemma parseString_quoted:
  "list_all plainChar s \<Longrightarrow> parseString (CHR 0x22 # s @ CHR 0x22 # rest) = Some (s, rest)"
proof -
  assume a: "list_all plainChar s"
  then have n: "\<forall>c \<in> set s. c \<noteq> CHR 0x22"
    by (auto simp: list_all_iff plainChar_def)
  then have t: "takeWhile (\<lambda>c. c \<noteq> CHR 0x22) (s @ CHR 0x22 # rest) = s"
    by (simp add: takeWhile_tail)
  from n have d: "dropWhile (\<lambda>c. c \<noteq> CHR 0x22) (s @ CHR 0x22 # rest) = CHR 0x22 # rest"
    by (simp add: dropWhile_append3)
  show ?thesis using a by (simp add: parseString_def t d)
qed

lemma digitValue_digitChar: "d < 10 \<Longrightarrow> digitValue (digitChar d) = d"
proof -
  assume "d < 10"
  then have "d \<in> {0, 1, 2, 3, 4, 5, 6, 7, 8, 9}" by auto
  then show ?thesis by (auto simp: digitValue_def digitChar_def)
qed

lemma isDigit_digitChar: "d < 10 \<Longrightarrow> isDigit (digitChar d)"
  by (simp add: isDigit_def digitChar_def del: set_simps)

lemma parseNat_snoc: "parseNat (s @ [c]) = 10 * parseNat s + digitValue c"
  by (simp add: parseNat_def)

lemma str_nat_digits: "list_all isDigit (str_nat n) \<and> str_nat n \<noteq> [] \<and> parseNat (str_nat n) = n"
proof (induction n rule: str_nat.induct)
  case (1 n)
  show ?case
  proof (cases "n < 10")
    case True
    then show ?thesis
      by (simp add: str_nat.simps [of n] isDigit_digitChar parseNat_def digitValue_digitChar)
  next
    case False
    with 1 have ih: "list_all isDigit (str_nat (n div 10))" "parseNat (str_nat (n div 10)) = n div 10"
      by simp_all
    have m: "n mod 10 < 10" by simp
    show ?thesis
      using False ih
      by (simp add: str_nat.simps [of n] isDigit_digitChar [OF m] parseNat_snoc
          digitValue_digitChar [OF m])
  qed
qed

lemma isDigit_not_special:
  "isDigit c \<Longrightarrow> \<not> isWs c \<and> c \<noteq> CHR ''-'' \<and> c \<noteq> CHR ''{'' \<and> c \<noteq> CHR ''['' \<and> c \<noteq> CHR 0x22"
  by (auto simp: isDigit_def isWs_def)

lemma str_nat_Cons: "\<exists>c r. str_nat n = c # r \<and> isDigit c"
  using str_nat_digits [of n] by (cases "str_nat n") simp_all

lemma parseNumber_str_nat:
  assumes "\<not> isDigit c"
  shows "parseNumber (str_nat n @ c # rest) = Some (int n, c # rest)"
proof -
  from str_nat_Cons obtain d r where s: "str_nat n = d # r" and d: "isDigit d" by blast
  from d have neg: "d \<noteq> CHR ''-''" by (simp add: isDigit_not_special)
  have all: "\<forall>x \<in> set (str_nat n). isDigit x"
    using str_nat_digits [of n] by (simp add: list_all_iff)
  have t: "takeWhile isDigit (str_nat n @ c # rest) = str_nat n"
    using all assms by (simp add: takeWhile_tail)
  have dr: "dropWhile isDigit (str_nat n @ c # rest) = c # rest"
    using all assms by (simp add: dropWhile_append3)
  have "parseNumber (str_nat n @ c # rest) = Some (int (parseNat (str_nat n)), c # rest)"
    unfolding parseNumber_def Let_def
    using neg t dr str_nat_digits [of n] by (simp add: s)
  then show ?thesis by (simp add: str_nat_digits)
qed

lemma parseNumber_str_int:
  assumes "\<not> isDigit c"
  shows "parseNumber (str_int i @ c # rest) = Some (i, c # rest)"
proof (cases "i < 0")
  case False
  then show ?thesis
    using parseNumber_str_nat [OF assms, of "nat i" rest] by (simp add: str_int_def)
next
  case True
  have all: "\<forall>x \<in> set (str_nat (nat (- i))). isDigit x"
    using str_nat_digits [of "nat (- i)"] by (simp add: list_all_iff)
  have t: "takeWhile isDigit (str_nat (nat (- i)) @ c # rest) = str_nat (nat (- i))"
    using all assms by (simp add: takeWhile_tail)
  have dr: "dropWhile isDigit (str_nat (nat (- i)) @ c # rest) = c # rest"
    using all assms by (simp add: dropWhile_append3)
  show ?thesis
    unfolding parseNumber_def Let_def
    using True t dr str_nat_digits [of "nat (- i)"] by (simp add: str_int_def)
qed

lemma str_int_Cons: "\<exists>c r. str_int i = c # r \<and> (c = CHR ''-'' \<or> isDigit c)"
  using str_nat_Cons [of "nat i"] by (auto simp: str_int_def)

lemma parseValue_number:
  assumes "\<not> isDigit c"
  shows "parseValue (Suc n) (CHR '' '' # str_int i @ c # rest) = Some (JNumber i, c # rest)"
proof -
  from str_int_Cons obtain d r where s: "str_int i = d # r" and d: "d = CHR ''-'' \<or> isDigit d"
    by blast
  from d have nw: "\<not> isWs d" "d \<noteq> CHR ''{''" "d \<noteq> CHR ''[''" "d \<noteq> CHR 0x22"
    using isDigit_not_special [of d] by (auto simp: isWs_def)
  have sk: "skipWs (CHR '' '' # str_int i @ c # rest) = d # r @ c # rest"
    by (simp add: skipWs_space s skipWs_Cons nw)
  have pn: "parseNumber (d # r @ c # rest) = Some (i, c # rest)"
    using parseNumber_str_int [OF assms, of i rest] by (simp add: s)
  show ?thesis
    using d nw by (simp add: sk pn)
qed

lemma parseValue_string:
  "list_all plainChar s \<Longrightarrow>
   parseValue (Suc n) (CHR 0x22 # s @ CHR 0x22 # rest) = Some (JString s, rest)"
  by (simp add: skipWs_Cons isWs_def parseString_quoted)

lemma plainChar_base64Chars: "\<forall>c \<in> set base64Chars. plainChar c"
  by (simp add: base64Chars_def plainChar_def)

lemma plainChar_base64Char: "plainChar (base64Char n)"
proof -
  have "n mod 64 < length base64Chars" by (simp add: base64Chars_def)
  then have "base64Chars ! (n mod 64) \<in> set base64Chars" by (rule nth_mem)
  with plainChar_base64Chars show ?thesis by (simp add: base64Char_def)
qed

lemma plainChar_eq: "plainChar (CHR ''='')"
  by (simp add: plainChar_def)

lemma plainChar_encodeBase64: "list_all plainChar (encodeBase64 bs)"
  by (induction bs rule: encodeBase64.induct) (simp_all add: plainChar_base64Char plainChar_eq)

lemma plainChar_contentType:
  "t \<in> {ContentType_TEXT, ContentType_BYTES, ContentType_JSON, ContentType_V8} \<Longrightarrow>
   list_all plainChar t"
  by (auto simp: ContentType_TEXT_def ContentType_BYTES_def ContentType_JSON_def
      ContentType_V8_def plainChar_def)

lemma parseValue_object:
  "parseValue (Suc n) (CHR ''{'' # CHR 0x22 # x) =
     (case parseMembers n (CHR 0x22 # x) of
        None \<Rightarrow> None
      | Some (members, r) \<Rightarrow> Some (JObject members, r))"
  by (simp add: skipWs_Cons isWs_def)

lemma parseValue_array:
  "parseValue (Suc n) (CHR ''['' # CHR ''{'' # x) =
     (case parseElements n (CHR ''{'' # x) of
        None \<Rightarrow> None
      | Some (elements, r) \<Rightarrow> Some (JArray elements, r))"
  by (simp add: skipWs_Cons isWs_def)

lemma member_string_comma:
  assumes "list_all plainChar k" and "list_all plainChar s"
  shows "parseMembers (Suc (Suc n))
      (CHR 0x22 # k @ CHR 0x22 # CHR '':'' # CHR 0x22 # s @ CHR 0x22 # CHR '','' # rest) =
     (case parseMembers (Suc n) rest of
        None \<Rightarrow> None
      | Some (members, r) \<Rightarrow> Some ((k, JString s) # members, r))"
  by (simp add: skipWs_Cons isWs_def parseString_quoted [OF assms(1)]
      parseValue_string [OF assms(2)] del: parseValue.simps parseMembers.simps(2) [of "Suc n"])

lemma member_string_end:
  assumes "list_all plainChar k" and "list_all plainChar s"
  shows "parseMembers (Suc (Suc n))
      (CHR 0x22 # k @ CHR 0x22 # CHR '':'' # CHR 0x22 # s @ CHR 0x22 # CHR ''}'' # rest) =
     Some ([(k, JString s)], rest)"
  by (simp add: skipWs_Cons isWs_def parseString_quoted [OF assms(1)]
      parseValue_string [OF assms(2)] del: parseValue.simps)

lemma member_number_end:
  assumes "list_all plainChar k"
  shows "parseMembers (Suc (Suc n))
      (CHR 0x22 # k @ CHR 0x22 # CHR '':'' # CHR '' '' # str_int i @ CHR ''}'' # rest) =
     Some ([(k, JNumber i)], rest)"
proof -
  have d: "\<not> isDigit (CHR ''}'')" by (simp add: isDigit_def)
  show ?thesis
    by (simp add: skipWs_Cons isWs_def parseString_quoted [OF assms(1)]
        parseValue_number [OF d] del: parseValue.simps)
qed

lemma plain_keys:
  "list_all plainChar ''body''" "list_all plainChar ''contentType''"
  "list_all plainChar ''delaySecs''" "list_all plainChar ''messages''"
  by (simp_all add: plainChar_def)

lemma parse_messageJson:
  assumes "\<And>t. itemContentType item = Some t \<Longrightarrow> list_all plainChar t"
  shows "parseValue (Suc (Suc (Suc (Suc (Suc n))))) (messageJson item @ rest) =
      Some (itemObject item, rest)"
proof -
  note b = plainChar_encodeBase64 [of "data (itemBody item)"]
  show ?thesis
  proof (cases "itemContentType item")
    case None
    note ct = None
    show ?thesis
    proof (cases "itemDelaySeconds item")
      case None
      show ?thesis
        using member_string_end [OF plain_keys(1) b, of "Suc (Suc n)" rest]
        by (simp add: messageJson_def itemObject_def ct None parseValue_object
            del: parseValue.simps parseMembers.simps)
    next
      case (Some secs)
      show ?thesis
        using member_string_comma [OF plain_keys(1) b, of "Suc (Suc n)"
            "''\"delaySecs\": '' @ str_cint secs @ ''}'' @ rest"]
          member_number_end [OF plain_keys(3), of "Suc n" "sint secs" rest]
        by (simp add: messageJson_def itemObject_def ct Some parseValue_object str_cint_def
            del: parseValue.simps parseMembers.simps)
    qed
  next
    case (Some t)
    note ct = Some
    note pt = assms [OF Some]
    show ?thesis
    proof (cases "itemDelaySeconds item")
      case None
      show ?thesis
        using member_string_comma [OF plain_keys(1) b, of "Suc (Suc n)"
            "''\"contentType\":\"'' @ t @ ''\"}'' @ rest"]
          member_string_end [OF plain_keys(2) pt, of "Suc n" rest]
        by (simp add: messageJson_def itemObject_def ct None parseValue_object
            del: parseValue.simps parseMembers.simps)
    next
      case (Some secs)
      show ?thesis
        using member_string_comma [OF plain_keys(1) b, of "Suc (Suc n)"
            "''\"contentType\":\"'' @ t @ ''\",\"delaySecs\": '' @ str_cint secs @ ''}'' @ rest"]
          member_string_comma [OF plain_keys(2) pt, of "Suc n"
            "''\"delaySecs\": '' @ str_cint secs @ ''}'' @ rest"]
          member_number_end [OF plain_keys(3), of n "sint secs" rest]
        by (simp add: messageJson_def itemObject_def ct Some parseValue_object str_cint_def
            del: parseValue.simps parseMembers.simps)
    qed
  qed
qed

lemma messageJson_Cons: "\<exists>r. messageJson item = CHR ''{'' # r"
  by (simp add: messageJson_def)

lemma parseElements_more:
  "parseValue k s = Some (v, CHR '','' # r) \<Longrightarrow> parseElements k r = Some (vs, r') \<Longrightarrow>
   parseElements (Suc k) s = Some (v # vs, r')"
  by (simp add: skipWs_Cons isWs_def)

lemma parseElements_last:
  "parseValue k s = Some (v, CHR '']'' # r) \<Longrightarrow> parseElements (Suc k) s = Some ([v], r)"
  by (simp add: skipWs_Cons isWs_def)

lemma parseMembers_single:
  "parseString (skipWs s) = Some (key, CHR '':'' # r1) \<Longrightarrow>
   parseValue k r1 = Some (v, CHR ''}'' # r3) \<Longrightarrow>
   parseMembers (Suc k) s = Some ([(key, v)], r3)"
  by (simp add: skipWs_Cons isWs_def)

lemma parseElements_joinWith:
  assumes "items \<noteq> []"
    and "\<And>item t. item \<in> set items \<Longrightarrow> itemContentType item = Some t \<Longrightarrow> list_all plainChar t"
  shows "parseElements (length items + 5 + n)
      (joinWith '','' (map messageJson items) @ CHR '']'' # rest) =
     Some (map itemObject items, rest)"
  using assms
proof (induction items arbitrary: n)
  case Nil
  then show ?case by simp
next
  case (Cons x xs)
  have px: "parseValue (Suc (Suc (Suc (Suc (Suc m))))) (messageJson x @ r) = Some (itemObject x, r)"
    for m r
    by (rule parse_messageJson) (rule Cons.prems(2), simp_all)
  show ?case
  proof (cases xs)
    case Nil
    have h: "parseElements (Suc (Suc (Suc (Suc (Suc (Suc n))))))
        (messageJson x @ CHR '']'' # rest) = Some ([itemObject x], rest)"
      by (rule parseElements_last) (rule px)
    have e: "length (x # xs) + 5 + n = Suc (Suc (Suc (Suc (Suc (Suc n)))))"
      by (simp add: Nil)
    have j: "joinWith '','' (map messageJson (x # xs)) = messageJson x"
      and m: "map itemObject (x # xs) = [itemObject x]"
      by (simp_all add: Nil)
    show ?thesis unfolding e j m by (rule h)
  next
    case (Cons y ys)
    have ih: "parseElements (length xs + 5 + n)
        (joinWith '','' (map messageJson xs) @ CHR '']'' # rest) = Some (map itemObject xs, rest)"
      by (rule Cons.IH) (simp add: Cons, rule Cons.prems(2), simp_all)
    have f: "length (x # xs) + 5 + n = Suc (length xs + 5 + n)" by simp
    have g: "length xs + 5 + n = Suc (Suc (Suc (Suc (Suc (length xs + n)))))" by simp
    have j: "joinWith '','' (map messageJson (x # xs)) @ CHR '']'' # rest =
        messageJson x @ CHR '','' # (joinWith '','' (map messageJson xs) @ CHR '']'' # rest)"
      by (simp add: Cons)
    have "parseValue (length xs + 5 + n)
        (messageJson x @ CHR '','' # (joinWith '','' (map messageJson xs) @ CHR '']'' # rest)) =
        Some (itemObject x, CHR '','' # (joinWith '','' (map messageJson xs) @ CHR '']'' # rest))"
      unfolding g by (rule px)
    then have "parseElements (Suc (length xs + 5 + n))
        (messageJson x @ CHR '','' # (joinWith '','' (map messageJson xs) @ CHR '']'' # rest)) =
        Some (itemObject x # map itemObject xs, rest)"
      using ih by (rule parseElements_more)
    then show ?thesis
      unfolding f j by simp
  qed
qed

lemma joinWith_messageJson_Cons:
  "items \<noteq> [] \<Longrightarrow> \<exists>r. joinWith '','' (map messageJson items) = CHR ''{'' # r"
proof (cases items)
  case Nil
  then show "items \<noteq> [] \<Longrightarrow> ?thesis" by simp
next
  case (Cons x xs)
  obtain r where "messageJson x = CHR ''{'' # r" using messageJson_Cons by blast
  then show ?thesis by (cases xs) (simp_all add: Cons)
qed

lemma parse_batchJson:
  assumes "items \<noteq> []"
    and "\<And>item t. item \<in> set items \<Longrightarrow> itemContentType item = Some t \<Longrightarrow> list_all plainChar t"
  shows "parseValue (length items + 8 + n) (batchJson items) =
      Some (JObject [(''messages'', JArray (map itemObject items))], [])"
proof -
  from joinWith_messageJson_Cons [OF assms(1)] obtain r where
    r: "joinWith '','' (map messageJson items) = CHR ''{'' # r" by blast
  have el: "parseElements (length items + 5 + n) (CHR ''{'' # r @ '']}'') =
      Some (map itemObject items, ''}'')"
    using parseElements_joinWith [OF assms, where n = n and rest = "''}''"] by (simp add: r)
  have arr: "parseValue (Suc (length items + 5 + n)) (CHR ''['' # CHR ''{'' # r @ '']}'') =
      Some (JArray (map itemObject items), ''}'')"
    by (simp only: parseValue_array el option.case prod.case)
  have mem: "parseMembers (Suc (Suc (length items + 5 + n)))
      (CHR 0x22 # ''messages'' @ CHR 0x22 # CHR '':'' # CHR ''['' # CHR ''{'' # r @ '']}'') =
      Some ([(''messages'', JArray (map itemObject items))], [])"
  proof (rule parseMembers_single)
    show "parseString (skipWs (CHR 0x22 # ''messages'' @ CHR 0x22 # CHR '':'' # CHR ''['' # CHR ''{'' # r @ '']}''))
        = Some (''messages'', CHR '':'' # CHR ''['' # CHR ''{'' # r @ '']}'')"
      using parseString_quoted [OF plain_keys(4), of "CHR '':'' # CHR ''['' # CHR ''{'' # r @ '']}''"]
      by (simp add: skipWs_Cons isWs_def)
    show "parseValue (Suc (length items + 5 + n)) (CHR ''['' # CHR ''{'' # r @ '']}'') =
        Some (JArray (map itemObject items), CHR ''}'' # [])"
      using arr by simp
  qed
  have f: "length items + 8 + n = Suc (Suc (Suc (length items + 5 + n)))" by simp
  have "parseValue (Suc (Suc (Suc (length items + 5 + n))))
      (CHR ''{'' # CHR 0x22 # ''messages'' @ CHR 0x22 # CHR '':'' # CHR ''['' # CHR ''{'' # r @ '']}'') =
      Some (JObject [(''messages'', JArray (map itemObject items))], [])"
    by (simp only: parseValue_object mem option.case prod.case)
  then show ?thesis
    unfolding f batchJson_def r by simp
qed

lemma length_batchJson_lower: "length items + 3 \<le> length (batchJson items)"
  by (simp add: batchJson_def length_joinWith)

lemma parseJson_batchJson:
  assumes "items \<noteq> []"
    and "\<And>item t. item \<in> set items \<Longrightarrow> itemContentType item = Some t \<Longrightarrow> list_all plainChar t"
  shows "parseJson (batchJson items) = Some (JObject [(''messages'', JArray (map itemObject items))])"
proof -
  have "length items + 8 \<le> 2 * length (batchJson items) + 2"
    using length_batchJson_lower [of items] by simp
  then obtain n where n: "2 * length (batchJson items) + 2 = length items + 8 + n"
    using le_Suc_ex by blast
  show ?thesis
    unfolding parseJson_def n
    by (simp add: parse_batchJson [OF assms, where n = n] skipWs_def)
qed

lemma serializeMessage_item:
  assumes "serializeMessage js flags m = Inr item"
  shows "data (itemBody item) = messagePayload js flags m"
    and "itemContentType item = appliedContentType flags m"
    and "itemDelaySeconds item = messageDelaySeconds m"
proof -
  show "data (itemBody item) = messagePayload js flags m"
    by (simp add: messagePayload_def assms)
  show "itemContentType item = appliedContentType flags m"
  proof (cases "messageContentType m")
    case None
    with assms show ?thesis
      by (auto simp: serializeMessage_def appliedContentType_def Let_def
          split: if_splits sum.splits)
  next
    case (Some c)
    with assms obtain v where "validateContentType c = Inr v" and "itemContentType item = Some v"
      by (auto simp: serializeMessage_def Let_def split: if_splits sum.splits)
    with validateContentType_Inr [of c v] Some show ?thesis
      by (simp add: appliedContentType_def)
  qed
  show "itemDelaySeconds item = messageDelaySeconds m"
    using assms
    by (auto simp: serializeMessage_def Let_def split: if_splits sum.splits option.splits)
qed

lemma serializeMessage_messageJson:
  assumes "serializeMessage js flags m = Inr item"
  shows "messageJson item = messageJson (messageItem js flags m)"
    and "itemObject item = messageObject js flags m"
  using serializeMessage_item [OF assms]
  by (simp_all add: messageJson_def messageItem_def itemObject_def messageObject_def)

lemma items_of_batch:
  assumes "list_all2 (\<lambda>m item. serializeMessage js flags m = Inr item) batch items"
  shows "map messageJson items = map (\<lambda>m. messageJson (messageItem js flags m)) batch"
    and "map itemObject items = map (messageObject js flags) batch"
  using assms
  by (induction batch items rule: list_all2_induct)
    (simp_all add: serializeMessage_messageJson)

text \<open>
  Claim C3. The request body of a batch that \<open>sendBatch\<close> sends is the text of the envelope
  \<open>{"messages":[...]}\<close> around one object for each message of the batch, in the order of
  the batch and joined by commas, where the object of a message has the field \<open>body\<close> with
  the base64 text of its serialized payload, then \<open>contentType\<close> when a content type applies
  to it, then \<open>delaySecs\<close> when it has a delay. Read back as JSON, the body is an object
  whose \<open>messages\<close> is the array of exactly these objects, one for each message in the
  order of the batch, with an absent field left out and never null.
\<close>

theorem sendBatch_wire_body:
  assumes "sendBatch js flags batch options = Inr req"
  shows "list_all (\<lambda>m. \<not> isl (serializeMessage js flags m)) batch
    \<and> requestBody req = asBytes (batchJson (map (messageItem js flags) batch))
    \<and> parseJson (asChars (requestBody req)) =
        Some (JObject [(''messages'', JArray (map (messageObject js flags) batch))])
    \<and> length (map (messageObject js flags) batch) = length batch"
proof -
  from sendBatch_Inr [OF assms] obtain bodyBuilder estimated totalSize largestMessage where
    b: "sendBatchBody js flags batch = Inr (bodyBuilder, estimated, totalSize, largestMessage)"
    and rb: "requestBody req = asBytes (butlast bodyBuilder)"
    by blast
  from sendBatchBody_Inr [OF b] obtain items where
    ne: "batch \<noteq> []"
    and loop: "serializeLoop js flags batch ([], 0, 0) = Inr (items, totalSize, largestMessage)"
    and bb: "bodyBuilder = buildBody items (length batch)"
    by blast
  note all2 = serializeLoop_items(1) [OF loop]
  have len: "length items = length batch"
    using all2 by (simp add: list_all2_lengthD)
  with ne have ine: "items \<noteq> []" by auto
  have body: "butlast bodyBuilder = batchJson items"
    using bb len buildBody_eq [of items] by simp
  have same: "batchJson items = batchJson (map (messageItem js flags) batch)"
    by (simp add: batchJson_def items_of_batch(1) [OF all2] comp_def)
  have pc: "list_all plainChar t" if "item \<in> set items" and "itemContentType item = Some t" for item t
  proof -
    from list_all2_set_right [OF all2 that(1)] obtain m where
      "serializeMessage js flags m = Inr item" by blast
    from serialize_contentType_length [OF this that(2)] show ?thesis
      by (rule plainChar_contentType)
  qed
  have parse: "parseJson (batchJson items) =
      Some (JObject [(''messages'', JArray (map (messageObject js flags) batch))])"
    using parseJson_batchJson [OF ine pc] by (simp add: items_of_batch(2) [OF all2])
  have ok: "list_all (\<lambda>m. \<not> isl (serializeMessage js flags m)) batch"
    by (rule serializeMessage_Inr_all [OF all2])
  show ?thesis
    using ok parse by (simp add: rb body same [symmetric] asChars_asBytes)
qed

lemma messageItems_testBatch:
  "map (messageJson \<circ> messageItem testHost testFlags) testBatch = map messageJson testItems"
  by (simp add: testBatch_def testItems_def messageItem_def messagePayload_def
      serializeMessage_testBatch appliedContentType_def toLower_def toLowerChar_def
      messageJson_def)

lemma messageObjects_testBatch:
  "map (messageObject testHost testFlags) testBatch =
     [JObject [(''body'', JString ''aGVsbG8=''), (''contentType'', JString ''text''),
               (''delaySecs'', JNumber 5)],
      JObject [(''body'', JString ''AQID''), (''contentType'', JString ''bytes'')]]"
  by (simp add: testBatch_def messageObject_def messagePayload_def
      serializeMessage_testBatch appliedContentType_def toLower_def toLowerChar_def
      base64Char_def base64Chars_def)

theorem sendBatch_wire_body_witness:
  "sendBatch testHost testFlags testBatch None =
     Inr (projr (sendBatch testHost testFlags testBatch None))
   \<and> requestBody (projr (sendBatch testHost testFlags testBatch None)) = asBytes testBody
   \<and> parseJson testBody =
       Some (JObject [(''messages'', JArray
         [JObject [(''body'', JString ''aGVsbG8=''), (''contentType'', JString ''text''),
                   (''delaySecs'', JNumber 5)],
          JObject [(''body'', JString ''AQID''), (''contentType'', JString ''bytes'')]])])"
proof -
  have ok: "sendBatch testHost testFlags testBatch None =
      Inr (projr (sendBatch testHost testFlags testBatch None))"
    using sendBatch_testBatch_succeeds by (cases "sendBatch testHost testFlags testBatch None") simp_all
  have b: "batchJson (map (messageItem testHost testFlags) testBatch) = testBody"
    using messageItems_testBatch batchJson_testItems by (simp add: batchJson_def)
  note w = sendBatch_wire_body [OF ok]
  have r: "requestBody (projr (sendBatch testHost testFlags testBatch None)) = asBytes testBody"
    using w [THEN conjunct2, THEN conjunct1] by (simp only: b)
  have p: "parseJson (asChars (requestBody (projr (sendBatch testHost testFlags testBatch None)))) =
      Some (JObject [(''messages'', JArray (map (messageObject testHost testFlags) testBatch))])"
    by (rule w [THEN conjunct2, THEN conjunct2, THEN conjunct1])
  have "parseJson testBody =
      Some (JObject [(''messages'', JArray (map (messageObject testHost testFlags) testBatch))])"
    using p by (simp only: r asChars_asBytes)
  then show ?thesis
    using ok r by (simp add: messageObjects_testBatch)
qed

section \<open>The outcome of a delivery\<close>

lemma handlerBranch_cases:
  "handlerBranch None = None"
  "handlerBranch (Some (t0, Rejected e)) = Some (t0, Resolved EXCEPTION)"
  "exportedHandlerProm resp = None \<Longrightarrow>
     handlerBranch (Some (t0, Resolved resp)) = Some (t0, Resolved OK)"
  "exportedHandlerProm resp = Some None \<Longrightarrow>
     handlerBranch (Some (t0, Resolved resp)) = None"
  "exportedHandlerProm resp = Some (Some (t1, Resolved u)) \<Longrightarrow>
     handlerBranch (Some (t0, Resolved resp)) = Some (max t0 t1, Resolved OK)"
  "exportedHandlerProm resp = Some (Some (t1, Rejected e)) \<Longrightarrow>
     handlerBranch (Some (t0, Resolved resp)) = Some (max t0 t1, Resolved EXCEPTION)"
  by (simp_all add: handlerBranch_def promiseCatch_def thenElse_def thenPromise_def
      promiseThen_def immediate_def)

lemma handlerBranch_value:
  "handlerBranch runProm = Some (t, r) \<Longrightarrow> r = Resolved OK \<or> r = Resolved EXCEPTION"
  by (auto simp: handlerBranch_def promiseCatch_def thenElse_def thenPromise_def
      promiseThen_def immediate_def split: option.splits settled.splits prod.splits)

lemma race_handler_first:
  assumes "handlerBranch runProm = Some (t, r)"
    and "settlesAfter t (limitScheduled env)" and "settlesAfter t (onAbort env)"
  shows "race runProm env = Some (t, r)"
  using assms
  by (auto simp: race_def exclusiveJoin_def settlesAfter_def promiseThen_def thenElse_def
      split: option.splits settled.splits prod.splits)

lemma race_limit_first:
  assumes "limitScheduled env = Some (t, Resolved u)"
    and "settlesAfter t (handlerBranch runProm)" and "settlesAfter t (onAbort env)"
  shows "race runProm env = Some (t, Resolved EXCEEDED_CPU)"
  using assms
  by (auto simp: race_def exclusiveJoin_def settlesAfter_def promiseThen_def thenElse_def
      split: option.splits settled.splits prod.splits)

lemma race_abort_first:
  assumes "onAbort env = Some (t, r)"
    and "settlesAfter t (handlerBranch runProm)" and "settlesAfter t (limitScheduled env)"
  shows "race runProm env = Some (t, Resolved EXCEPTION)"
  using assms
  by (auto simp: race_def exclusiveJoin_def settlesAfter_def promiseThen_def thenElse_def
      split: option.splits settled.splits prod.splits)

lemma run_after_race:
  assumes "getQueueConsumerNoWaitForWaitUntil compatFlags"
    and "race runProm env = Some (t, Resolved outcome)"
  shows "run compatFlags runProm env ledger =
      Some (Inr (case getLimitsExceeded env of
                   Some status \<Rightarrow> status
                 | None \<Rightarrow>
                     if outcome = OK \<and> holderIsServiceWorker runProm t then
                       (if finishScheduled env = COMPLETED then waitUntilStatus env
                        else EXCEEDED_CPU)
                     else outcome), ledger)"
  using assms by (cases "getLimitsExceeded env") (auto simp: run_def Let_def)

lemma run_ledger:
  "run compatFlags runProm env ledger = Some (x, ledger') \<Longrightarrow> ledger' = ledger"
  by (auto simp: run_def Let_def split: if_splits option.splits prod.splits settled.splits)

text \<open>
  Claim C4 says that with \<open>queueConsumerNoWaitForWaitUntil\<close> the first signal to settle
  determines the outcome, completion of the handler giving OK. For a worker in
  service-worker syntax \<open>run\<close> goes on to wait for all \<^verbatim>\<open>waitUntil\<close> tasks when the race
  gave OK: the listeners return at turn 1, no limit elapses and nothing aborts, a
  \<^verbatim>\<open>waitUntil\<close> task has failed, and the outcome is EXCEPTION.
\<close>

theorem run_service_worker_counterexample:
  "getQueueConsumerNoWaitForWaitUntil testFlags
   \<and> startQueueEvent testFlags None 1 =
       Inr \<lparr>exportedHandlerProm = None, isServiceWorkerHandler = True\<rparr>
   \<and> handlerBranch (contextRun 1 (startQueueEvent testFlags None 1)) = Some (1, Resolved OK)
   \<and> limitScheduled testEnv = None \<and> onAbort testEnv = None
   \<and> run testFlags (contextRun 1 (startQueueEvent testFlags None 1)) testEnv defaultResult
       = Some (Inr EXCEPTION, defaultResult)"
  by (simp add: testFlags_def startQueueEvent_def contextRun_def handlerBranch_cases testEnv_def
      run_def race_def exclusiveJoin_def promiseThen_def thenElse_def holderIsServiceWorker_def)

text \<open>
  Claim C4, amended. With \<open>queueConsumerNoWaitForWaitUntil\<close>, the race is settled by the
  first of the three signals to settle: the handler's branch (OK when starting the event
  succeeded and the promise the handler returned, if any, resolved; EXCEPTION when starting
  failed or that promise rejected), the time limit (EXCEEDED_CPU) or the abort (EXCEPTION).
  The outcome \<open>run\<close> reports is the value of the race, except that a race that gave OK for a
  worker in service-worker syntax is followed by waiting for all \<^verbatim>\<open>waitUntil\<close> tasks (then
  the outcome is \<open>waitUntilStatus\<close> if they completed and EXCEEDED_CPU if not), and that a
  limit the limit enforcer reports as exceeded replaces any outcome. \<open>run\<close> writes nowhere
  to the ledger: what the handler did to it before the race settled is in the reported
  ledger.
\<close>

theorem run_outcome_first_signal:
  assumes "getQueueConsumerNoWaitForWaitUntil compatFlags"
  shows "(handlerBranch runProm = Some (t, r) \<and> settlesAfter t (limitScheduled env)
          \<and> settlesAfter t (onAbort env) \<longrightarrow>
        (r = Resolved OK \<or> r = Resolved EXCEPTION) \<and> race runProm env = Some (t, r))
    \<and> (limitScheduled env = Some (t, Resolved u) \<and> settlesAfter t (handlerBranch runProm)
          \<and> settlesAfter t (onAbort env) \<longrightarrow>
        race runProm env = Some (t, Resolved EXCEEDED_CPU))
    \<and> (onAbort env = Some (t, a) \<and> settlesAfter t (handlerBranch runProm)
          \<and> settlesAfter t (limitScheduled env) \<longrightarrow>
        race runProm env = Some (t, Resolved EXCEPTION))
    \<and> (race runProm env = Some (t, Resolved outcome) \<longrightarrow>
        run compatFlags runProm env ledger =
          Some (Inr (case getLimitsExceeded env of
                       Some status \<Rightarrow> status
                     | None \<Rightarrow>
                         if outcome = OK \<and> holderIsServiceWorker runProm t then
                           (if finishScheduled env = COMPLETED then waitUntilStatus env
                            else EXCEEDED_CPU)
                         else outcome), ledger))
    \<and> (runProm = Some (t0, Rejected e) \<longrightarrow>
        handlerBranch runProm = Some (t0, Resolved EXCEPTION))
    \<and> (runProm = Some (t0, Resolved resp) \<and> exportedHandlerProm resp = None \<longrightarrow>
        handlerBranch runProm = Some (t0, Resolved OK))
    \<and> (runProm = Some (t0, Resolved resp)
          \<and> exportedHandlerProm resp = Some (Some (t1, Resolved u)) \<longrightarrow>
        handlerBranch runProm = Some (max t0 t1, Resolved OK))
    \<and> (runProm = Some (t0, Resolved resp)
          \<and> exportedHandlerProm resp = Some (Some (t1, Rejected e)) \<longrightarrow>
        handlerBranch runProm = Some (max t0 t1, Resolved EXCEPTION))
    \<and> (run compatFlags runProm env ledger = Some (x, ledger') \<longrightarrow> ledger' = ledger)"
proof -
  have h: "handlerBranch runProm = Some (t, r) \<and> settlesAfter t (limitScheduled env)
          \<and> settlesAfter t (onAbort env) \<longrightarrow>
        (r = Resolved OK \<or> r = Resolved EXCEPTION) \<and> race runProm env = Some (t, r)"
    using handlerBranch_value [of runProm t r] race_handler_first [of runProm t r env]
    by simp
  have l: "limitScheduled env = Some (t, Resolved u) \<and> settlesAfter t (handlerBranch runProm)
          \<and> settlesAfter t (onAbort env) \<longrightarrow>
        race runProm env = Some (t, Resolved EXCEEDED_CPU)"
    using race_limit_first [of env t u runProm] by simp
  have a: "onAbort env = Some (t, a) \<and> settlesAfter t (handlerBranch runProm)
          \<and> settlesAfter t (limitScheduled env) \<longrightarrow>
        race runProm env = Some (t, Resolved EXCEPTION)"
    using race_abort_first [of env t a runProm] by simp
  have f: "race runProm env = Some (t, Resolved outcome) \<longrightarrow>
        run compatFlags runProm env ledger =
          Some (Inr (case getLimitsExceeded env of
                       Some status \<Rightarrow> status
                     | None \<Rightarrow>
                         if outcome = OK \<and> holderIsServiceWorker runProm t then
                           (if finishScheduled env = COMPLETED then waitUntilStatus env
                            else EXCEEDED_CPU)
                         else outcome), ledger)"
    using run_after_race [OF assms, of runProm env t outcome ledger] by simp
  have b: "runProm = Some (t0, Rejected e) \<longrightarrow>
        handlerBranch runProm = Some (t0, Resolved EXCEPTION)"
    "runProm = Some (t0, Resolved resp) \<and> exportedHandlerProm resp = None \<longrightarrow>
        handlerBranch runProm = Some (t0, Resolved OK)"
    "runProm = Some (t0, Resolved resp)
          \<and> exportedHandlerProm resp = Some (Some (t1, Resolved u)) \<longrightarrow>
        handlerBranch runProm = Some (max t0 t1, Resolved OK)"
    "runProm = Some (t0, Resolved resp)
          \<and> exportedHandlerProm resp = Some (Some (t1, Rejected e)) \<longrightarrow>
        handlerBranch runProm = Some (max t0 t1, Resolved EXCEPTION)"
    by (simp_all add: handlerBranch_cases)
  have g: "run compatFlags runProm env ledger = Some (x, ledger') \<longrightarrow> ledger' = ledger"
    using run_ledger [of compatFlags runProm env ledger x ledger'] by simp
  from h l a f b g show ?thesis by (intro conjI)
qed

lemma handlerDone_eq:
  "handlerDone = Some (1, Resolved \<lparr>exportedHandlerProm = Some (Some (3, Resolved ())),
      isServiceWorkerHandler = False\<rparr>)"
  by (simp add: handlerDone_def contextRun_def startQueueEvent_def testFlags_def)

lemma handlerPending_eq:
  "handlerPending = Some (1, Resolved \<lparr>exportedHandlerProm = Some None,
      isServiceWorkerHandler = False\<rparr>)"
  by (simp add: handlerPending_def contextRun_def startQueueEvent_def testFlags_def)

theorem run_outcome_first_signal_witness:
  "getQueueConsumerNoWaitForWaitUntil testFlags
   \<and> handlerBranch handlerDone = Some (3, Resolved OK)
   \<and> settlesAfter 3 (limitScheduled limitEnv) \<and> settlesAfter 3 (onAbort limitEnv)
   \<and> race handlerDone limitEnv = Some (3, Resolved OK)
   \<and> run testFlags handlerDone limitEnv defaultResult = Some (Inr OK, defaultResult)
   \<and> limitScheduled limitEnv = Some (10, Resolved ())
   \<and> settlesAfter 10 (handlerBranch handlerPending) \<and> settlesAfter 10 (onAbort limitEnv)
   \<and> race handlerPending limitEnv = Some (10, Resolved EXCEEDED_CPU)
   \<and> run testFlags handlerPending limitEnv (result (applyCalls freshState [Ack ''m1'']))
       = Some (Inr EXCEEDED_CPU, result (applyCalls freshState [Ack ''m1'']))
   \<and> onAbort abortEnv = Some (2, Rejected (Error ''worker aborted''))
   \<and> settlesAfter 2 (handlerBranch handlerDone) \<and> settlesAfter 2 (limitScheduled abortEnv)
   \<and> race handlerDone abortEnv = Some (2, Resolved EXCEPTION)
   \<and> run testFlags handlerDone abortEnv defaultResult = Some (Inr EXCEPTION, defaultResult)"
proof -
  have fl: "getQueueConsumerNoWaitForWaitUntil testFlags" by (simp add: testFlags_def)
  have hd: "handlerBranch handlerDone = Some (3, Resolved OK)"
    by (simp add: handlerDone_eq handlerBranch_cases)
  have hp: "handlerBranch handlerPending = None"
    by (simp add: handlerPending_eq handlerBranch_cases)
  have s1: "settlesAfter 3 (limitScheduled limitEnv) \<and> settlesAfter 3 (onAbort limitEnv)"
    by (simp add: settlesAfter_def limitEnv_def)
  have s2: "limitScheduled limitEnv = Some (10, Resolved ())
      \<and> settlesAfter 10 (handlerBranch handlerPending) \<and> settlesAfter 10 (onAbort limitEnv)"
    by (simp add: settlesAfter_def limitEnv_def hp)
  have s3: "onAbort abortEnv = Some (2, Rejected (Error ''worker aborted''))
      \<and> settlesAfter 2 (handlerBranch handlerDone) \<and> settlesAfter 2 (limitScheduled abortEnv)"
    by (simp add: settlesAfter_def abortEnv_def limitEnv_def hd)
  have n: "getLimitsExceeded limitEnv = None" "getLimitsExceeded abortEnv = None"
    by (simp_all add: abortEnv_def limitEnv_def)
  note w1 = run_outcome_first_signal [OF fl, of handlerDone 3 "Resolved OK" limitEnv "()" "Rejected (Error ''worker aborted'')" OK defaultResult]
  note w2 = run_outcome_first_signal [OF fl, of handlerPending 10 "Resolved OK" limitEnv "()" "Rejected (Error ''worker aborted'')" EXCEEDED_CPU
      "result (applyCalls freshState [Ack ''m1''])"]
  note w3 = run_outcome_first_signal [OF fl, of handlerDone 2 "Resolved OK" abortEnv "()" "Rejected (Error ''worker aborted'')" EXCEPTION defaultResult]
  have r1: "race handlerDone limitEnv = Some (3, Resolved OK)"
    using w1 hd s1 by simp
  have r2: "race handlerPending limitEnv = Some (10, Resolved EXCEEDED_CPU)"
    using w2 s2 by simp
  have r3: "race handlerDone abortEnv = Some (2, Resolved EXCEPTION)"
    using w3 s3 by simp
  have o1: "run testFlags handlerDone limitEnv defaultResult = Some (Inr OK, defaultResult)"
    using w1 r1 n by (simp add: holderIsServiceWorker_def handlerDone_eq)
  have o2: "run testFlags handlerPending limitEnv (result (applyCalls freshState [Ack ''m1'']))
       = Some (Inr EXCEEDED_CPU, result (applyCalls freshState [Ack ''m1'']))"
    using w2 r2 n by simp
  have o3: "run testFlags handlerDone abortEnv defaultResult = Some (Inr EXCEPTION, defaultResult)"
    using w3 r3 n by simp
  from fl hd s1 r1 o1 s2 r2 o2 s3 r3 o3 show ?thesis by (intro conjI) simp_all
qed

end
